theory Spec2Isabelle
  imports
    Complex_Main
    "HOL-Library.Char_ord"
    "HOL-Library.List_Lexorder"
    "HOL-Library.Sublist"
    "HOL-Library.Multiset"
begin

section \<open>Strings and numbers of the host language\<close>

text \<open>
  Python strings are modelled as \<^typ>\<open>string\<close>, each \<^typ>\<open>char\<close> read as a code point
  in the range 0 to 255.  On that range the case mappings only matter on the ASCII letters:
  every comparison the program makes after \<open>lower()\<close> or \<open>upper()\<close> is against ASCII
  letters, digits or the text \<open>NOT FOUND\<close>, and no other character of the range maps into
  these.  The floats of the program are quotients of counts, and one mean of such quotients;
  they are modelled as exact rationals.  A float is within one part in \<open>10\<^sup>1\<^sup>5\<close> of the exact
  value, which changes a comparison with 0.2 only for a quotient that close to one fifth.
  \<open>round(x, 2)\<close> rounds the float: a quotient exactly halfway between two hundredths goes
  to the side on which the float nearest to it lies, so \<open>1/200\<close> is rounded to 0.01 and
  \<open>9/200\<close> to 0.04, and to the even hundredth when the quotient is a float itself, as
  \<open>1/8\<close> is.  The rounding below follows the float there; anywhere else it takes the
  nearest hundredth of the exact value, which is that of the float unless the value is as
  close as said to the middle between two hundredths.
\<close>

definition is_space :: "char \<Rightarrow> bool" where
  \<comment> \<open>the characters \<open>str.split()\<close>, \<open>str.strip()\<close> and the pattern \<open>\s\<close> treat as blank\<close>
  "is_space c = (of_char c \<in> {9::nat, 10, 11, 12, 13, 28, 29, 30, 31, 32, 133, 160})"

definition is_digit :: "char \<Rightarrow> bool" where
  "is_digit c = (CHR ''0'' \<le> c \<and> c \<le> CHR ''9'')"

definition is_lower_alnum :: "char \<Rightarrow> bool" where
  \<comment> \<open>the character class \<open>[a-z0-9]\<close>\<close>
  "is_lower_alnum c = ((CHR ''a'' \<le> c \<and> c \<le> CHR ''z'') \<or> is_digit c)"

definition lower_char :: "char \<Rightarrow> char" where
  "lower_char c = (if CHR ''A'' \<le> c \<and> c \<le> CHR ''Z'' then char_of (of_char c + (32::nat)) else c)"

definition upper_char :: "char \<Rightarrow> char" where
  "upper_char c = (if CHR ''a'' \<le> c \<and> c \<le> CHR ''z'' then char_of (of_char c - (32::nat)) else c)"

definition lower :: "string \<Rightarrow> string" where
  "lower s = map lower_char s"

definition upper :: "string \<Rightarrow> string" where
  "upper s = map upper_char s"

text \<open>The maximal runs of characters satisfying \<open>P\<close>, from left to right.\<close>

function runs :: "(char \<Rightarrow> bool) \<Rightarrow> string \<Rightarrow> string list" where
  "runs P [] = []"
| "runs P (c # cs) =
     (if P c then (c # takeWhile P cs) # runs P (dropWhile P cs) else runs P cs)"
  by pat_completeness auto
termination
  by (relation "measure (\<lambda>(P, s). length s)") (auto simp: le_imp_less_Suc length_dropWhile_le)

definition split_ws :: "string \<Rightarrow> string list" where
  \<comment> \<open>\<open>text.split()\<close>\<close>
  "split_ws s = runs (\<lambda>c. \<not> is_space c) s"

fun join :: "string \<Rightarrow> string list \<Rightarrow> string" where
  \<comment> \<open>\<open>sep.join(xs)\<close>\<close>
  "join sep [] = []"
| "join sep [x] = x"
| "join sep (x # y # ys) = x @ sep @ join sep (y # ys)"

definition strip :: "string \<Rightarrow> string" where
  \<comment> \<open>\<open>s.strip()\<close>\<close>
  "strip s = rev (dropWhile is_space (rev (dropWhile is_space s)))"

definition rstrip_char :: "char \<Rightarrow> string \<Rightarrow> string" where
  \<comment> \<open>\<open>s.rstrip(c)\<close> for a single character\<close>
  "rstrip_char c s = rev (dropWhile (\<lambda>d. d = c) (rev s))"

fun contains :: "string \<Rightarrow> string \<Rightarrow> bool" where
  \<comment> \<open>\<open>needle in hay\<close>\<close>
  "contains needle [] = (needle = [])"
| "contains needle (c # cs) = (prefix needle (c # cs) \<or> contains needle cs)"

definition digit_char :: "nat \<Rightarrow> char" where
  "digit_char d = char_of (of_char CHR ''0'' + d)"

function str_nat :: "nat \<Rightarrow> string" where
  \<comment> \<open>the decimal numeral an f-string prints for a non-negative integer\<close>
  "str_nat n = (if n < 10 then [digit_char n] else str_nat (n div 10) @ [digit_char (n mod 10)])"
  by pat_completeness auto
termination
  by (relation "measure id") auto

declare str_nat.simps [simp del]

definition parse_nat :: "string \<Rightarrow> nat" where
  \<comment> \<open>the number a string of decimal digits denotes\<close>
  "parse_nat s = foldl (\<lambda>a c. 10 * a + (of_char c - of_char CHR ''0'')) 0 s"

definition py_prefix :: "int \<Rightarrow> 'a list \<Rightarrow> 'a list" where
  \<comment> \<open>the slice \<open>xs[:k]\<close>; a negative \<open>k\<close> counts from the end\<close>
  "py_prefix k xs = (if 0 \<le> k then take (nat k) xs else take (length xs - nat (- k)) xs)"

function bit_length :: "nat \<Rightarrow> nat" where
  \<comment> \<open>\<open>n.bit_length()\<close>\<close>
  "bit_length n = (if n = 0 then 0 else Suc (bit_length (n div 2)))"
  by pat_completeness auto
termination
  by (relation "measure id") auto

declare bit_length.simps [simp del]

definition pow2 :: "int \<Rightarrow> rat" where
  "pow2 k = (if 0 \<le> k then 2 ^ nat k else 1 / 2 ^ nat (- k))"

definition half_even :: "rat \<Rightarrow> int" where
  \<comment> \<open>the nearest integer, an exact tie going to the even one\<close>
  "half_even y =
     (let f = \<lfloor>y\<rfloor>; d = y - of_int f
      in if d < 1 / 2 then f else if 1 / 2 < d then f + 1 else if even f then f else f + 1)"

definition float_of :: "rat \<Rightarrow> rat" where
  \<comment> \<open>the float nearest to \<open>x\<close>, the result of a true division of integers with quotient
      \<open>x\<close>: 53 significant bits, an exact tie going to the even one.  The exponent is not
      bounded; the quotients of the program are far from the ends of its range.\<close>
  "float_of x =
     (if x = 0 then 0
      else
        (let (p, q) = quotient_of \<bar>x\<bar>;
             k = int (bit_length (nat p)) - int (bit_length (nat q));
             e = (if pow2 k \<le> \<bar>x\<bar> then k else k - 1);
             ulp = pow2 (e - 52)
         in sgn x * of_int (half_even (\<bar>x\<bar> / ulp)) * ulp))"

definition round2 :: "rat \<Rightarrow> rat" where
  \<comment> \<open>\<open>round(x, 2)\<close>: the nearest multiple of one hundredth; at an exact tie the one on
      the side of the float of \<open>x\<close>, and the even one when that float is \<open>x\<close>\<close>
  "round2 x =
     (let y = x * 100; f = \<lfloor>y\<rfloor>; d = y - of_int f;
          m = (if d < 1 / 2 then f else if 1 / 2 < d then f + 1
               else if float_of x < x then f else if x < float_of x then f + 1
               else if even f then f else f + 1)
      in of_int m / 100)"

section \<open>Outcomes and collaborators\<close>

text \<open>
  An exception that leaves a function is a value \<open>Inl e\<close>.  \<open>NonTermination\<close> stands for a
  loop that never returns.
\<close>

datatype error =
    RuntimeError string
  | ApiError string
  | ValueError
  | AttributeError
  | TypeError
  | NonTermination

datatype json =
    JNull
  | JBool bool
  | JNum rat
  | JStr string
  | JArr "json list"
  | JObj "(string \<times> json) list"

record response =
  status_code :: int
  body :: string

record request =
  req_model :: string
  req_messages :: "(string \<times> string) list"
  req_temperature :: rat
  req_max_tokens :: "nat option"

text \<open>
  Everything the program reaches outside itself: the HTTP client, the HTML parser, the URL
  library, the process environment, the completion service and the JSON parser.  The
  completion service answers a request in the light of the requests made before it.
\<close>

record env =
  http_get :: "string \<Rightarrow> response option"
    \<comment> \<open>\<open>requests.get\<close>; \<open>None\<close> is a \<open>RequestException\<close>\<close>
  soup_text :: "string \<Rightarrow> string"
    \<comment> \<open>the text of the parsed page without script, style and noscript elements\<close>
  soup_title :: "string \<Rightarrow> string option"
    \<comment> \<open>\<open>soup.title.string\<close>, when there is a title element with a string\<close>
  soup_hrefs :: "string \<Rightarrow> string list"
    \<comment> \<open>the \<open>href\<close> of every anchor that has one, in document order\<close>
  urljoin :: "string \<Rightarrow> string \<Rightarrow> string"
  urldefrag :: "string \<Rightarrow> string"
  netloc :: "string \<Rightarrow> string option"
    \<comment> \<open>\<open>urlparse(u).netloc\<close>; \<open>None\<close> is the \<open>ValueError\<close> of a malformed authority\<close>
  api_key :: "string option"
    \<comment> \<open>\<open>os.getenv("OPENAI_API_KEY")\<close>\<close>
  chat_completion :: "request list \<Rightarrow> request \<Rightarrow> string + string"
    \<comment> \<open>\<open>Inr\<close> the content of the first choice, \<open>Inl\<close> the message of the exception raised\<close>
  json_loads :: "string \<Rightarrow> json option"
    \<comment> \<open>\<open>None\<close> is a \<open>JSONDecodeError\<close>\<close>

section \<open>Crawler\<close>

definition DEFAULT_QUERIES :: "string list" where
  "DEFAULT_QUERIES =
     [''What services do you offer?'',
      ''What is your pricing?'',
      ''Where are you located?'',
      ''What are your business hours?'',
      ''Do you offer refunds or a money-back guarantee?'']"

record PageContent =
  url :: string
  title :: string
  page_text :: string

function collapse_ws :: "string \<Rightarrow> string" where
  \<comment> \<open>\<open>re.sub(r"\s+", " ", text)\<close>\<close>
  "collapse_ws [] = []"
| "collapse_ws (c # cs) =
     (if is_space c then CHR '' '' # collapse_ws (dropWhile is_space cs) else c # collapse_ws cs)"
  by pat_completeness auto
termination
  by (relation "measure length") (auto simp: le_imp_less_Suc length_dropWhile_le)

definition normalize_text :: "string \<Rightarrow> string" where
  "normalize_text t = strip (collapse_ws t)"

definition extract_text :: "env \<Rightarrow> string \<Rightarrow> string" where
  "extract_text e html = normalize_text (soup_text e html)"

fun extract_links_loop :: "env \<Rightarrow> string \<Rightarrow> int \<Rightarrow> string list \<Rightarrow> string list \<Rightarrow> string list" where
  "extract_links_loop e base_url max_links [] links = links"
| "extract_links_loop e base_url max_links (href # rest) links =
     (let joined = urljoin e base_url href;
          clean = urldefrag e joined;
          links' = links @ [clean]
      in if max_links \<le> int (length links') then links'
         else extract_links_loop e base_url max_links rest links')"

definition extract_links :: "env \<Rightarrow> string \<Rightarrow> string \<Rightarrow> int \<Rightarrow> string list" where
  "extract_links e base_url html max_links =
     extract_links_loop e base_url max_links (soup_hrefs e html) []"

definition is_same_host :: "env \<Rightarrow> string \<Rightarrow> string \<Rightarrow> error + bool" where
  "is_same_host e root_url u =
     (case netloc e root_url of
        None \<Rightarrow> Inl ValueError
      | Some a \<Rightarrow> (case netloc e u of None \<Rightarrow> Inl ValueError | Some b \<Rightarrow> Inr (a = b)))"

text \<open>
  The inner loop of the crawl: every extracted link on the seed's host that has not been
  visited is appended to the queue.
\<close>

fun enqueue_links ::
  "env \<Rightarrow> string \<Rightarrow> string set \<Rightarrow> string list \<Rightarrow> string list \<Rightarrow> error + string list" where
  "enqueue_links e start_url seen queue [] = Inr queue"
| "enqueue_links e start_url seen queue (link # links) =
     (case is_same_host e start_url link of
        Inl err \<Rightarrow> Inl err
      | Inr same \<Rightarrow>
          enqueue_links e start_url seen
            (if same \<and> link \<notin> seen then queue @ [link] else queue) links)"

definition make_page :: "env \<Rightarrow> string \<Rightarrow> string \<Rightarrow> PageContent" where
  "make_page e u html =
     \<lparr>url = u,
      title = (case soup_title e html of
                 None \<Rightarrow> []
               | Some s \<Rightarrow> if s = [] then [] else normalize_text s),
      page_text = extract_text e html\<rparr>"

text \<open>
  The \<open>while queue and len(pages) < max_pages\<close> loop, which both versions of \<open>crawl_site\<close>
  share word for word.  It always ends: a fetched page brings \<open>pages\<close> closer to
  \<open>max_pages\<close>, and every other turn shortens the queue.  The loop is left with the set
  \<open>seen\<close> of the URLs a fetch was attempted for and with the pages; \<open>crawl_site\<close> returns
  the pages.
\<close>

function crawl_loop ::
  "env \<Rightarrow> string \<Rightarrow> int \<Rightarrow> int \<Rightarrow> string set \<Rightarrow> string list \<Rightarrow> PageContent list
     \<Rightarrow> error + string set \<times> PageContent list" where
  "crawl_loop e start_url max_pages max_links seen [] pages = Inr (seen, pages)"
| "crawl_loop e start_url max_pages max_links seen (u # queue) pages =
     (if \<not> int (length pages) < max_pages then Inr (seen, pages)
      else if u \<in> seen then crawl_loop e start_url max_pages max_links seen queue pages
      else
        (case http_get e u of
           None \<Rightarrow> crawl_loop e start_url max_pages max_links (insert u seen) queue pages
         | Some resp \<Rightarrow>
             if 400 \<le> status_code resp
             then crawl_loop e start_url max_pages max_links (insert u seen) queue pages
             else
               (case enqueue_links e start_url (insert u seen) queue
                       (extract_links e u (body resp) max_links) of
                  Inl err \<Rightarrow> Inl err
                | Inr queue' \<Rightarrow>
                    crawl_loop e start_url max_pages max_links (insert u seen) queue'
                      (pages @ [make_page e u (body resp)]))))"
  by pat_completeness auto
termination
  by (relation "measures [\<lambda>(e, s, mp, ml, seen, queue, pages). nat (mp - int (length pages)),
                          \<lambda>(e, s, mp, ml, seen, queue, pages). length queue]") auto

definition returned_pages :: "error + string set \<times> PageContent list \<Rightarrow> error + PageContent list" where
  \<comment> \<open>\<open>return pages\<close>\<close>
  "returned_pages r = (case r of Inl err \<Rightarrow> Inl err | Inr (seen, pages) \<Rightarrow> Inr pages)"

definition crawl_site_A :: "env \<Rightarrow> string \<Rightarrow> int \<Rightarrow> int \<Rightarrow> error + PageContent list" where
  \<comment> \<open>\<open>crawl_site\<close> of \<open>ai_tool_anayze/backend/benchmark.py\<close>\<close>
  "crawl_site_A e start_url max_pages max_links_per_page =
     returned_pages (crawl_loop e start_url max_pages max_links_per_page {} [start_url] [])"

definition priority_paths :: "string list" where
  "priority_paths =
     ['''', ''/contact'', ''/contact-us'', ''/about'', ''/about-us'', ''/pricing'',
      ''/prices'', ''/plans'', ''/faq'', ''/support'', ''/help'', ''/locations'',
      ''/hours'', ''/refund'', ''/refund-policy'', ''/terms'', ''/services'']"

definition priority_queue :: "string \<Rightarrow> string list" where
  \<comment> \<open>\<open>priority_urls + [start_url]\<close>\<close>
  "priority_queue start_url =
     (let base = rstrip_char CHR ''/'' start_url;
          priority_urls = map (\<lambda>path. base @ path) priority_paths
      in priority_urls @ [start_url])"

definition crawl_site_B :: "env \<Rightarrow> string \<Rightarrow> int \<Rightarrow> int \<Rightarrow> error + PageContent list" where
  \<comment> \<open>\<open>crawl_site\<close> of \<open>backend/benchmark.py\<close>, which puts the priority pages first\<close>
  "crawl_site_B e start_url max_pages max_links_per_page =
     returned_pages
       (crawl_loop e start_url max_pages max_links_per_page {} (priority_queue start_url) [])"

section \<open>Chunker\<close>

text \<open>
  \<open>chunk_size\<close> and \<open>overlap\<close> are word counts, hence natural numbers; then
  \<open>max(0, end - overlap)\<close> is the truncating subtraction.  The loop of \<open>_chunk_text\<close>
  need not end for every pair of them (it does not when the overlap is at least the chunk
  size and the text is longer than one chunk), so it returns an option: \<open>None\<close> is a run
  that never returns.
\<close>

partial_function (option) chunk_loop ::
  "string list \<Rightarrow> nat \<Rightarrow> nat \<Rightarrow> nat \<Rightarrow> string list \<Rightarrow> string list option" where
  "chunk_loop words chunk_size overlap start chunks =
     (if start < length words then
        (let stop = min (length words) (start + chunk_size);
             chunk = join '' '' (take (stop - start) (drop start words));
             chunks' = chunks @ [chunk]
         in if length words \<le> stop then Some chunks'
            else chunk_loop words chunk_size overlap (stop - overlap) chunks')
      else Some chunks)"

declare chunk_loop.simps [code]

definition chunk_text :: "string \<Rightarrow> nat \<Rightarrow> nat \<Rightarrow> string list option" where
  "chunk_text t chunk_size overlap =
     (if t = [] then Some [] else chunk_loop (split_ws t) chunk_size overlap 0 [])"

section \<open>Retriever and scorer\<close>

definition tokenize :: "string \<Rightarrow> string list" where
  \<comment> \<open>\<open>re.findall(r"[a-z0-9]+", text.lower())\<close>\<close>
  "tokenize t = runs is_lower_alnum (lower t)"

definition Counter :: "string list \<Rightarrow> string \<Rightarrow> nat" where
  \<comment> \<open>\<open>collections.Counter\<close>: a key that was never counted reads as 0\<close>
  "Counter xs = fold (\<lambda>t m. m(t := m t + 1)) xs (\<lambda>_. 0)"

definition score_overlap :: "string \<Rightarrow> string \<Rightarrow> rat" where
  "score_overlap query chunk =
     (let q_tokens = tokenize query in
      if q_tokens = [] then 0
      else
        (let c_tokens = tokenize chunk;
             c_counts = Counter c_tokens
         in of_nat (sum_list (map c_counts q_tokens)) / of_nat (max 1 (length q_tokens))))"

type_synonym scored_chunk = "string \<times> string \<times> rat"

definition chunk_score :: "scored_chunk \<Rightarrow> rat" where
  \<comment> \<open>the component \<open>x[2]\<close>\<close>
  "chunk_score x = snd (snd x)"

definition sort_reverse :: "scored_chunk list \<Rightarrow> scored_chunk list" where
  \<comment> \<open>\<open>scored.sort(key=lambda x: x[2], reverse=True)\<close>: the library's stable sort, run on
      the reversed order of the keys\<close>
  "sort_reverse scored = sort_key (\<lambda>x. - chunk_score x) scored"

definition score_chunks :: "string \<Rightarrow> (string \<times> string) list \<Rightarrow> scored_chunk list" where
  \<comment> \<open>the list \<open>scored\<close> before it is sorted\<close>
  "score_chunks query chunks = map (\<lambda>(u, chunk). (u, chunk, score_overlap query chunk)) chunks"

definition select_top_chunks :: "string \<Rightarrow> (string \<times> string) list \<Rightarrow> int \<Rightarrow> scored_chunk list" where
  "select_top_chunks query chunks top_k =
     (let scored = score_chunks query chunks
      in py_prefix top_k (sort_reverse scored))"

section \<open>Answer synthesizer\<close>

definition newline :: string where
  "newline = [CHR 0x0A]"

definition dquote :: string where
  "dquote = [CHR 0x22]"

fun build_context_loop ::
  "nat \<Rightarrow> scored_chunk list \<Rightarrow> string list \<Rightarrow> string list \<Rightarrow> string \<times> string list" where
  "build_context_loop idx [] sources blocks = (join (newline @ newline) blocks, sources)"
| "build_context_loop idx ((u, chunk, score) # rest) sources blocks =
     build_context_loop (Suc idx) rest (sources @ [u])
       (blocks @ [''['' @ str_nat idx @ ''] '' @ u @ newline @ chunk])"

definition build_context :: "scored_chunk list \<Rightarrow> string \<times> string list" where
  "build_context top_chunks = build_context_loop 1 top_chunks [] []"

definition system_msg :: string where
  "system_msg =
     ''You answer questions using only the provided sources. '' @
     ''If the answer is not in the sources, reply with '' @ dquote @ ''NOT FOUND'' @ dquote @ ''. '' @
     ''Cite sources using [n] after sentences.''"

definition key_missing :: "env \<Rightarrow> bool" where
  \<comment> \<open>\<open>not api_key\<close>: the variable is unset or empty\<close>
  "key_missing e = (case api_key e of None \<Rightarrow> True | Some k \<Rightarrow> k = [])"

definition config_error :: error where
  "config_error = RuntimeError ''OPENAI_API_KEY is not set''"

text \<open>
  The functions that may call the completion service take the list of the requests made so
  far and return it with their result, extended by the request they made, if any.
\<close>

definition call_openai_answer ::
  "env \<Rightarrow> string \<Rightarrow> string \<Rightarrow> string \<Rightarrow> request list \<Rightarrow> (error + string) \<times> request list" where
  "call_openai_answer e query context model calls =
     (if key_missing e then (Inl config_error, calls)
      else
        (let user_msg = ''Question: '' @ query @ newline @ newline @ ''Sources:'' @ newline @ context;
             req = \<lparr>req_model = model,
                    req_messages = [(''system'', system_msg), (''user'', user_msg)],
                    req_temperature = 2 / 10,
                    req_max_tokens = None\<rparr>
         in case chat_completion e calls req of
              Inl msg \<Rightarrow> (Inl (ApiError msg), calls @ [req])
            | Inr content \<Rightarrow> (Inr (strip content), calls @ [req])))"

text \<open>
  \<open>re.findall(r"\[(\d+)\]", answer)\<close>: at an opening bracket the digits that follow are
  taken greedily, and the marker counts when they are at least one and a closing bracket
  follows; the scan then goes on behind the marker, and otherwise at the next character.
\<close>

function find_markers :: "string \<Rightarrow> string list" where
  "find_markers [] = []"
| "find_markers (c # cs) =
     (if c = CHR ''['' \<and> takeWhile is_digit cs \<noteq> [] \<and>
         take 1 (dropWhile is_digit cs) = '']''
      then takeWhile is_digit cs # find_markers (drop 1 (dropWhile is_digit cs))
      else find_markers cs)"
  by pat_completeness auto
termination
proof (relation "measure length")
  fix c :: char and cs :: string
  have "length (dropWhile is_digit cs) \<le> length cs"
    by (rule length_dropWhile_le)
  then show "(drop 1 (dropWhile is_digit cs), c # cs) \<in> measure length"
    by simp
qed auto

record citation =
  cite_url :: string
  cite_section :: string

text \<open>
  \<open>int(match)\<close> on a marker, a non-empty string of decimal digits.  The interpreter
  converts a numeral of at most 4300 digits, the default of \<open>sys.get_int_max_str_digits()\<close>,
  and raises \<open>ValueError\<close> on a longer one; leading zeros count as digits.  The program
  neither changes the limit nor catches the error.
\<close>

definition MAX_STR_DIGITS :: nat where
  "MAX_STR_DIGITS = 4300"

definition py_int :: "string \<Rightarrow> error + nat" where
  "py_int s = (if MAX_STR_DIGITS < length s then Inl ValueError else Inr (parse_nat s))"

definition cite :: "string list \<Rightarrow> nat \<Rightarrow> string set \<Rightarrow> string set" where
  \<comment> \<open>the body of the loop over the markers, behind \<open>int(match)\<close>\<close>
  "cite sources n cited =
     (let idx = int n - 1
      in if 0 \<le> idx \<and> idx < int (length sources)
         then insert (sources ! nat idx) cited else cited)"

fun cite_markers :: "string list \<Rightarrow> string list \<Rightarrow> string set \<Rightarrow> error + string set" where
  \<comment> \<open>the loop over the markers; the error of \<open>int(match)\<close> ends it\<close>
  "cite_markers sources [] cited = Inr cited"
| "cite_markers sources (match # rest) cited =
     (case py_int match of
        Inl err \<Rightarrow> Inl err
      | Inr n \<Rightarrow> cite_markers sources rest (cite sources n cited))"

definition extract_citations :: "string \<Rightarrow> string list \<Rightarrow> error + citation list" where
  "extract_citations answer sources =
     (case cite_markers sources (find_markers answer) {} of
        Inl err \<Rightarrow> Inl err
      | Inr cited \<Rightarrow>
          Inr (map (\<lambda>u. \<lparr>cite_url = u, cite_section = ''page''\<rparr>) (sorted_list_of_set cited)))"

definition build_answer ::
  "env \<Rightarrow> string \<Rightarrow> scored_chunk list \<Rightarrow> string \<Rightarrow> request list
     \<Rightarrow> (error + string \<times> citation list \<times> bool) \<times> request list" where
  "build_answer e query top_chunks model calls =
     (if top_chunks = [] \<or> chunk_score (hd top_chunks) < 2 / 10
      then (Inr (''NOT FOUND'', [], False), calls)
      else
        (let (context, sources) = build_context top_chunks
         in case call_openai_answer e query context model calls of
              (Inl err, calls') \<Rightarrow> (Inl err, calls')
            | (Inr answer, calls') \<Rightarrow>
                (let is_answerable = \<not> contains ''NOT FOUND'' (upper answer)
                 in case extract_citations answer sources of
                      Inl err \<Rightarrow> (Inl err, calls')
                    | Inr citations \<Rightarrow> (Inr (answer, citations, is_answerable), calls'))))"

section \<open>Benchmark aggregator, one completion call per question\<close>

text \<open>
  The report of both aggregators has the same fields.  The one of
  \<open>ai_tool_anayze/backend/benchmark.py\<close> fills the textual fields with strings and the flags
  with booleans; the one of \<open>backend/benchmark.py\<close> copies values of the parsed completion
  into them.  So the type of the texts and the type of the flags are parameters.
\<close>

datatype status = Answered | NotFound

record 'b metrics =
  answerable :: 'b
  citation_ok :: 'b
  hallucination :: bool
  completeness :: rat

record ('s, 'b) query_result =
  query :: 's
  answer :: 's
  status :: status
  citations :: "citation list"
  metrics :: "'b metrics"

record overall =
  answerability_rate :: rat
  citation_coverage :: rat
  hallucination_rate :: rat
  overall_completeness :: rat

record ('s, 'b) report =
  site_url :: string
  crawled_pages :: nat
  indexed_chunks :: nat
  queries_run :: nat
  overall_scores :: overall
  query_results :: "('s, 'b) query_result list"
  missing_topics :: "'s list"

definition completeness_score :: "string \<Rightarrow> string \<Rightarrow> rat" where
  "completeness_score q a =
     (let q_tokens = set (tokenize q) in
      if q_tokens = {} then 0
      else
        (let a_tokens = set (tokenize a)
         in of_nat (card (q_tokens \<inter> a_tokens)) / of_nat (card q_tokens)))"

fun index_pages :: "PageContent list \<Rightarrow> (string \<times> string) list option" where
  \<comment> \<open>the chunks of every page, each with the page's URL\<close>
  "index_pages [] = Some []"
| "index_pages (p # ps) =
     (case chunk_text (page_text p) 800 120 of
        None \<Rightarrow> None
      | Some cs \<Rightarrow>
          (case index_pages ps of
             None \<Rightarrow> None
           | Some rest \<Rightarrow> Some (map (\<lambda>chunk. (url p, chunk)) cs @ rest)))"

text \<open>The variables the loop over the questions updates.\<close>

record tally =
  results :: "(string, bool) query_result list"
  answerable_count :: nat
  citation_ok_count :: nat
  hallucinations :: nat
  completeness_scores :: "rat list"
  missing :: "string list"

definition tally0 :: tally where
  "tally0 = \<lparr>results = [], answerable_count = 0, citation_ok_count = 0, hallucinations = 0,
             completeness_scores = [], missing = []\<rparr>"

definition record_result ::
  "string \<Rightarrow> string \<Rightarrow> citation list \<Rightarrow> bool \<Rightarrow> tally \<Rightarrow> tally" where
  \<comment> \<open>the body of the loop behind the call of \<open>_build_answer\<close>\<close>
  "record_result q a cs is_answerable t =
     (let c = completeness_score q a;
          t1 = (if is_answerable
                then t\<lparr>answerable_count := answerable_count t + 1,
                       citation_ok_count := citation_ok_count t + (if cs \<noteq> [] then 1 else 0),
                       hallucinations := hallucinations t + 0\<rparr>
                else t\<lparr>missing := missing t @ [q]\<rparr>);
          t2 = t1\<lparr>completeness_scores := completeness_scores t1 @ [c]\<rparr>
      in t2\<lparr>results := results t2 @
              [\<lparr>query = q, answer = a,
                status = (if is_answerable then Answered else NotFound),
                citations = cs,
                metrics = \<lparr>answerable = is_answerable, citation_ok = (cs \<noteq> []),
                           hallucination = False, completeness = round2 c\<rparr>\<rparr>]\<rparr>)"

fun query_loop ::
  "env \<Rightarrow> (string \<times> string) list \<Rightarrow> string \<Rightarrow> string list \<Rightarrow> tally \<Rightarrow> request list
     \<Rightarrow> (error + tally) \<times> request list" where
  "query_loop e chunks model [] t calls = (Inr t, calls)"
| "query_loop e chunks model (q # qs) t calls =
     (let top_chunks = select_top_chunks q chunks 3
      in case build_answer e q top_chunks model calls of
           (Inl err, calls') \<Rightarrow> (Inl err, calls')
         | (Inr (a, cs, is_answerable), calls') \<Rightarrow>
             query_loop e chunks model qs (record_result q a cs is_answerable t) calls')"

definition queries_list_of :: "string list option \<Rightarrow> string list" where
  \<comment> \<open>\<open>list(queries) if queries else DEFAULT_QUERIES\<close>\<close>
  "queries_list_of queries =
     (case queries of None \<Rightarrow> DEFAULT_QUERIES | Some qs \<Rightarrow> if qs = [] then DEFAULT_QUERIES else qs)"

definition overall_of :: "string list \<Rightarrow> tally \<Rightarrow> overall" where
  "overall_of queries_list t =
     (let total = max 1 (length queries_list)
      in \<lparr>answerability_rate = round2 (of_nat (answerable_count t) / of_nat total),
          citation_coverage = round2 (of_nat (citation_ok_count t) / of_nat total),
          hallucination_rate = round2 (of_nat (hallucinations t) / of_nat total),
          overall_completeness =
            (if completeness_scores t \<noteq> []
             then round2 (sum_list (completeness_scores t) / of_nat total) else 0)\<rparr>)"

definition run_answerability_benchmark_A ::
  "env \<Rightarrow> string \<Rightarrow> string list option \<Rightarrow> string \<Rightarrow> request list
     \<Rightarrow> (error + (string, bool) report) \<times> request list" where
  \<comment> \<open>\<open>run_answerability_benchmark\<close> of \<open>ai_tool_anayze/backend/benchmark.py\<close>\<close>
  "run_answerability_benchmark_A e site queries model calls =
     (let queries_list = queries_list_of queries
      in case crawl_site_A e site 15 50 of
           Inl err \<Rightarrow> (Inl err, calls)
         | Inr pages \<Rightarrow>
             (case index_pages pages of
                None \<Rightarrow> (Inl NonTermination, calls)
              | Some chunks \<Rightarrow>
                  (case query_loop e chunks model queries_list tally0 calls of
                     (Inl err, calls') \<Rightarrow> (Inl err, calls')
                   | (Inr t, calls') \<Rightarrow>
                       (Inr \<lparr>site_url = site,
                             crawled_pages = length pages,
                             indexed_chunks = length chunks,
                             queries_run = length queries_list,
                             overall_scores = overall_of queries_list t,
                             query_results = results t,
                             missing_topics = missing t\<rparr>, calls'))))"

section \<open>Benchmark aggregator, one completion call for all questions\<close>

definition truthy :: "json \<Rightarrow> bool" where
  \<comment> \<open>the truth value Python gives a parsed JSON value\<close>
  "truthy v =
     (case v of
        JNull \<Rightarrow> False
      | JBool b \<Rightarrow> b
      | JNum x \<Rightarrow> x \<noteq> 0
      | JStr s \<Rightarrow> s \<noteq> []
      | JArr xs \<Rightarrow> xs \<noteq> []
      | JObj kvs \<Rightarrow> kvs \<noteq> [])"

definition dict_get :: "(string \<times> json) list \<Rightarrow> string \<Rightarrow> json \<Rightarrow> json" where
  \<comment> \<open>\<open>d.get(key, default)\<close>\<close>
  "dict_get kvs k d = (case map_of kvs k of None \<Rightarrow> d | Some v \<Rightarrow> v)"

definition json_iter :: "json \<Rightarrow> error + json list" where
  \<comment> \<open>what \<open>enumerate(results)\<close> runs over: the items of a list, the keys of a dict, the
      characters of a string; anything else is not iterable\<close>
  "json_iter v =
     (case v of
        JArr xs \<Rightarrow> Inr xs
      | JObj kvs \<Rightarrow> Inr (map (\<lambda>kv. JStr (fst kv)) kvs)
      | JStr s \<Rightarrow> Inr (map (\<lambda>c. JStr [c]) s)
      | _ \<Rightarrow> Inl TypeError)"

definition strip_code_fence :: "string \<Rightarrow> string" where
  \<comment> \<open>the two \<open>re.sub\<close> calls on a response that starts with a code fence; the response
      has been stripped, so the end of the text is where \<open>$\<close> matches\<close>
  "strip_code_fence t =
     (if prefix ''```'' t then
        (let t1 = drop 3 t;
             t2 = (if prefix ''json'' t1 then drop 4 t1 else t1);
             t3 = (if prefix newline t2 then drop 1 t2 else t2)
         in if suffix (newline @ ''```'') t3 then take (length t3 - 4) t3
            else if suffix ''```'' t3 then take (length t3 - 3) t3
            else t3)
      else t)"

fun combine_pages :: "PageContent list \<Rightarrow> string \<Rightarrow> string" where
  "combine_pages [] combined_content = combined_content"
| "combine_pages (p # ps) combined_content =
     combine_pages ps
       (combined_content @ newline @ newline @ ''=== PAGE: '' @ url p @ '' ==='' @ newline @
          (if 8000 < length (page_text p) then take 8000 (page_text p) else page_text p))"

definition numbered_questions :: "string list \<Rightarrow> string" where
  "numbered_questions queries_list =
     join newline (map (\<lambda>(i, q). str_nat (i + 1) @ ''. '' @ q)
                    (zip [0..<length queries_list] queries_list))"

definition prompt_of :: "string \<Rightarrow> string \<Rightarrow> string \<Rightarrow> string" where
  "prompt_of domain questions_text combined_content =
     join newline
       [''You are analyzing the website '' @ domain @
          ''. Based on the website content provided below, answer each question thoroughly.'',
        '''',
        ''IMPORTANT INSTRUCTIONS:'',
        ''- Search through ALL the page content carefully before answering'',
        ''- Look for addresses, locations, office info in contact pages'',
        ''- Look for pricing, plans, or '' @ dquote @ ''get a demo'' @ dquote @ '' / '' @ dquote @
          ''contact sales'' @ dquote @ '' if no public pricing'',
        ''- For business hours, look for support hours, office hours, or operating hours'',
        ''- For refunds, look for terms of service, refund policy, or money-back guarantees'',
        ''- If info is partially available, provide what you found'',
        ''- Only say '' @ dquote @ ''NOT FOUND'' @ dquote @
          '' if you truly cannot find ANY relevant information'',
        '''',
        ''Questions to answer:'',
        questions_text,
        '''',
        ''Website Content (from multiple pages):'',
        combined_content,
        '''',
        ''Respond in JSON format exactly like this:'',
        ''['',
        ''  {'' @ dquote @ ''query'' @ dquote @ '': '' @ dquote @ ''question text'' @ dquote @ '', '' @
          dquote @ ''answer'' @ dquote @ '': '' @ dquote @
          ''detailed answer based on content, or NOT FOUND if truly not available'' @ dquote @
          '', '' @ dquote @ ''found'' @ dquote @ '': true/false}'',
        '']'',
        '''',
        ''Return ONLY the valid JSON array, no markdown, no extra text.'']"

definition error_results :: "string list \<Rightarrow> string \<Rightarrow> json" where
  \<comment> \<open>the results either \<open>except\<close> branch puts in the place of the parsed completion\<close>
  "error_results queries_list msg =
     JArr (map (\<lambda>q. JObj [(''query'', JStr q), (''answer'', JStr msg), (''found'', JBool False)])
             queries_list)"

definition ask_all ::
  "env \<Rightarrow> string \<Rightarrow> string \<Rightarrow> string list \<Rightarrow> request list \<Rightarrow> json \<times> request list" where
  \<comment> \<open>the \<open>try\<close> block with its two handlers\<close>
  "ask_all e model prompt queries_list calls =
     (let req = \<lparr>req_model = model,
                 req_messages = [(''user'', prompt)],
                 req_temperature = 1 / 10,
                 req_max_tokens = Some 2000\<rparr>
      in case chat_completion e calls req of
           Inl msg \<Rightarrow> (error_results queries_list (''Error: '' @ msg), calls @ [req])
         | Inr content \<Rightarrow>
             (case json_loads e (strip_code_fence (strip content)) of
                None \<Rightarrow> (error_results queries_list ''Error parsing response'', calls @ [req])
              | Some v \<Rightarrow> (v, calls @ [req])))"

record tally_B =
  results_B :: "(json, json) query_result list"
  answered_count :: nat
  missing_B :: "json list"

definition record_result_B ::
  "PageContent list \<Rightarrow> string \<Rightarrow> json \<Rightarrow> json \<Rightarrow> json \<Rightarrow> bool \<Rightarrow> tally_B \<Rightarrow> tally_B" where
  "record_result_B pages site q a found is_answered t =
     (let t1 = (if is_answered then t\<lparr>answered_count := answered_count t + 1\<rparr>
                else t\<lparr>missing_B := missing_B t @ [q]\<rparr>)
      in t1\<lparr>results_B := results_B t1 @
              [\<lparr>query = q, answer = a,
                status = (if is_answered then Answered else NotFound),
                citations =
                  (if truthy found
                   then [\<lparr>cite_url = (if pages \<noteq> [] then url (hd pages) else site),
                           cite_section = ''page''\<rparr>]
                   else []),
                metrics = \<lparr>answerable = found, citation_ok = found, hallucination = False,
                           completeness = (if truthy found then 1 else 0)\<rparr>\<rparr>]\<rparr>)"

fun process_results ::
  "string list \<Rightarrow> PageContent list \<Rightarrow> string \<Rightarrow> nat \<Rightarrow> json list \<Rightarrow> tally_B \<Rightarrow> error + tally_B" where
  "process_results queries_list pages site i [] t = Inr t"
| "process_results queries_list pages site i (result # rest) t =
     (case result of
        JObj kvs \<Rightarrow>
          (let q = dict_get kvs ''query''
                     (JStr (if i < length queries_list then queries_list ! i
                            else ''Question '' @ str_nat (i + 1)));
               a = dict_get kvs ''answer'' (JStr ''NOT FOUND'');
               found = dict_get kvs ''found'' (JBool False)
           in if truthy found then
                (case a of
                   JStr s \<Rightarrow>
                     process_results queries_list pages site (i + 1) rest
                       (record_result_B pages site q a found
                          (\<not> contains ''NOT FOUND'' (upper s)) t)
                 | _ \<Rightarrow> Inl AttributeError)
              else
                process_results queries_list pages site (i + 1) rest
                  (record_result_B pages site q a found False t))
      | _ \<Rightarrow> Inl AttributeError)"

definition empty_report :: "string \<Rightarrow> string list \<Rightarrow> (json, json) report" where
  \<comment> \<open>the report returned when no page was crawled\<close>
  "empty_report site queries_list =
     \<lparr>site_url = site,
      crawled_pages = 0,
      indexed_chunks = 0,
      queries_run = length queries_list,
      overall_scores = \<lparr>answerability_rate = 0, citation_coverage = 0,
                         hallucination_rate = 0, overall_completeness = 0\<rparr>,
      query_results =
        map (\<lambda>q. \<lparr>query = JStr q, answer = JStr ''Could not crawl website'',
                   status = NotFound, citations = [],
                   metrics = \<lparr>answerable = JBool False, citation_ok = JBool False,
                              hallucination = False, completeness = 0\<rparr>\<rparr>) queries_list,
      missing_topics = map JStr queries_list\<rparr>"

definition run_answerability_benchmark_B ::
  "env \<Rightarrow> string \<Rightarrow> string list option \<Rightarrow> string \<Rightarrow> request list
     \<Rightarrow> (error + (json, json) report) \<times> request list" where
  \<comment> \<open>\<open>run_answerability_benchmark\<close> of \<open>backend/benchmark.py\<close>\<close>
  "run_answerability_benchmark_B e site queries model calls =
     (let queries_list = queries_list_of queries
      in case crawl_site_B e site 10 50 of
           Inl err \<Rightarrow> (Inl err, calls)
         | Inr pages \<Rightarrow>
             if pages = [] then (Inr (empty_report site queries_list), calls)
             else
               (let c = combine_pages pages [];
                    combined_content =
                      (if 50000 < length c
                       then take 50000 c @ newline @ ''...[content truncated]...'' else c)
                in case netloc e site of
                     None \<Rightarrow> (Inl ValueError, calls)
                   | Some domain \<Rightarrow>
                       (let prompt = prompt_of domain (numbered_questions queries_list)
                                       combined_content
                        in if key_missing e then (Inl config_error, calls)
                           else
                             (case ask_all e model prompt queries_list calls of
                                (parsed, calls') \<Rightarrow>
                                  (case json_iter parsed of
                                     Inl err \<Rightarrow> (Inl err, calls')
                                   | Inr items \<Rightarrow>
                                       (case process_results queries_list pages site 0 items
                                               \<lparr>results_B = [], answered_count = 0,
                                                missing_B = []\<rparr> of
                                          Inl err \<Rightarrow> (Inl err, calls')
                                        | Inr t \<Rightarrow>
                                            (let total = max 1 (length queries_list);
                                                 rate = round2 (of_nat (answered_count t) /
                                                                of_nat total)
                                             in (Inr \<lparr>site_url = site,
                                                      crawled_pages = length pages,
                                                      indexed_chunks = length pages,
                                                      queries_run = length queries_list,
                                                      overall_scores =
                                                        \<lparr>answerability_rate = rate,
                                                         citation_coverage = rate,
                                                         hallucination_rate = 0,
                                                         overall_completeness = rate\<rparr>,
                                                      query_results = results_B t,
                                                      missing_topics = missing_B t\<rparr>,
                                                 calls'))))))))"

section \<open>The host of a URL\<close>

text \<open>
  \<open>urlparse(u).netloc\<close> as the standard library computes it: leading control characters
  and spaces are dropped, tabs and line breaks are removed, a scheme is split off at the
  first colon when the text before it starts with an ASCII letter and consists of scheme
  characters, and when two slashes follow, the host part runs up to the next slash, question
  mark or hash.  A host part with one square bracket but not the other is a \<open>ValueError\<close>.
  A host part with both has the text between the first opening bracket and the next closing
  bracket checked by the library's \<open>_check_bracketed_host\<close>, which raises \<open>ValueError\<close>
  unless the text is an IPv6 or IPvFuture literal.  It decides that with the \<open>ipaddress\<close>
  module and is a parameter here: \<open>True\<close> when it passes.  The last check of the library,
  \<open>_checknetloc\<close>, looks for a character whose compatibility normal form contains one of
  \<open>/?#@:\<close>; no code point from 0 to 255 has such a form, so it never raises here.
\<close>

definition c0_or_space :: "char \<Rightarrow> bool" where
  "c0_or_space c = (of_char c \<le> (32::nat))"

definition unsafe_url_byte :: "char \<Rightarrow> bool" where
  "unsafe_url_byte c = (of_char c \<in> {9::nat, 10, 13})"

definition ascii_alpha :: "char \<Rightarrow> bool" where
  "ascii_alpha c = ((CHR ''a'' \<le> c \<and> c \<le> CHR ''z'') \<or> (CHR ''A'' \<le> c \<and> c \<le> CHR ''Z''))"

definition scheme_char :: "char \<Rightarrow> bool" where
  "scheme_char c = (ascii_alpha c \<or> is_digit c \<or> c \<in> set ''+-.'')"

definition netloc_end :: "char \<Rightarrow> bool" where
  "netloc_end c = (c \<in> set ''/?#'')"

definition url_sanitize :: "string \<Rightarrow> string" where
  "url_sanitize u = filter (\<lambda>c. \<not> unsafe_url_byte c) (dropWhile c0_or_space u)"

definition drop_scheme :: "string \<Rightarrow> string" where
  \<comment> \<open>the URL behind its scheme and colon, if it has a scheme\<close>
  "drop_scheme u =
     (let pre = takeWhile (\<lambda>c. c \<noteq> CHR '':'') u
      in if length pre < length u \<and> pre \<noteq> [] \<and> ascii_alpha (hd u) \<and> list_all scheme_char pre
         then drop (Suc (length pre)) u else u)"

definition bracketed_host :: "string \<Rightarrow> string" where
  \<comment> \<open>\<open>netloc.partition('[')[2].partition(']')[0]\<close>\<close>
  "bracketed_host n =
     takeWhile (\<lambda>c. c \<noteq> CHR '']'') (drop 1 (dropWhile (\<lambda>c. c \<noteq> CHR ''['') n))"

definition checked_netloc :: "(string \<Rightarrow> bool) \<Rightarrow> string \<Rightarrow> string option" where
  \<comment> \<open>the checks on the host part \<open>n\<close>; \<open>None\<close> is the \<open>ValueError\<close>\<close>
  "checked_netloc check_bracketed_host n =
     (if (CHR ''['' \<in> set n \<and> CHR '']'' \<notin> set n) \<or> (CHR '']'' \<in> set n \<and> CHR ''['' \<notin> set n)
      then None
      else if CHR ''['' \<in> set n \<and> CHR '']'' \<in> set n \<and> \<not> check_bracketed_host (bracketed_host n)
      then None
      else Some n)"

definition url_netloc :: "(string \<Rightarrow> bool) \<Rightarrow> string \<Rightarrow> string option" where
  "url_netloc check_bracketed_host u =
     (let rest = drop_scheme (url_sanitize u)
      in if take 2 rest = ''//''
         then checked_netloc check_bracketed_host (takeWhile (\<lambda>c. \<not> netloc_end c) (drop 2 rest))
         else Some [])"

section \<open>What the specification says, in its own words\<close>

definition score_spec :: "string \<Rightarrow> string \<Rightarrow> rat" where
  \<comment> \<open>the sum over the query tokens of each token's count in the chunk, divided by the
      number of query tokens; 0 for a query without tokens\<close>
  "score_spec q c =
     (if tokenize q = [] then 0
      else of_nat (\<Sum>t\<leftarrow>tokenize q. count_list (tokenize c) t) /
           of_nat (length (tokenize q)))"

definition cited_spec :: "string \<Rightarrow> string list \<Rightarrow> string set" where
  \<comment> \<open>the sources the markers of the answer point to, counted from 1, markers out of
      range left out\<close>
  "cited_spec a sources =
     {sources ! (n - 1) | n.
        n \<in> set (map parse_nat (find_markers a)) \<and> 1 \<le> n \<and> n \<le> length sources}"

definition rebuild :: "string list \<Rightarrow> nat \<Rightarrow> string list" where
  \<comment> \<open>the word sequences of the chunks, one after the other, every chunk after the first
      without its leading overlap\<close>
  "rebuild chunks overlap =
     (case chunks of
        [] \<Rightarrow> []
      | c # cs \<Rightarrow> split_ws c @ concat (map (\<lambda>d. drop overlap (split_ws d)) cs))"

definition gate_closed :: "string \<Rightarrow> (string \<times> string) list \<Rightarrow> bool" where
  \<comment> \<open>the question does not pass the relevance gate of \<open>_build_answer\<close> on this index\<close>
  "gate_closed q chunks =
     (select_top_chunks q chunks 3 = [] \<or> chunk_score (hd (select_top_chunks q chunks 3)) < 2 / 10)"

section \<open>Two small worlds\<close>

text \<open>
  No URL of the worlds below has a square bracket in its host part.  Their URL library is
  \<open>url_netloc\<close> with a bracket check that refuses every text.
\<close>

definition plain_hosts :: "string \<Rightarrow> bool" where
  "plain_hosts h = False"

text \<open>A world without network and without credential.\<close>

definition offline_env :: env where
  "offline_env =
     \<lparr>http_get = (\<lambda>u. None),
      soup_text = (\<lambda>html. html),
      soup_title = (\<lambda>html. None),
      soup_hrefs = (\<lambda>html. []),
      urljoin = (\<lambda>base href. href),
      urldefrag = (\<lambda>u. u),
      netloc = url_netloc plain_hosts,
      api_key = None,
      chat_completion = (\<lambda>calls req. Inl ''connection refused''),
      json_loads = (\<lambda>t. None)\<rparr>"

text \<open>
  A site of one page, which links to another host and to itself, and a completion service
  that gives the same cited answer to every request.
\<close>

definition shop_body :: string where
  "shop_body = ''We offer consulting and design services for $500/month.''"

definition shop_env :: env where
  "shop_env =
     \<lparr>http_get = (\<lambda>u. if u = ''http://shop.example'' then Some \<lparr>status_code = 200, body = shop_body\<rparr>
                       else None),
      soup_text = (\<lambda>html. html),
      soup_title = (\<lambda>html. Some ''Shop''),
      soup_hrefs = (\<lambda>html. [''http://elsewhere.example/'', ''http://shop.example'']),
      urljoin = (\<lambda>base href. href),
      urldefrag = (\<lambda>u. u),
      netloc = url_netloc plain_hosts,
      api_key = Some ''sk-test'',
      chat_completion = (\<lambda>calls req. Inr ''We offer consulting and design services [1].''),
      json_loads = (\<lambda>t. Some (JArr [JObj [(''query'', JStr ''What services do you offer?''),
                                         (''answer'', JStr ''Consulting and design.''),
                                         (''found'', JBool True)]]))\<rparr>"

section \<open>Notions used in the statements\<close>

definition result_row :: "string \<Rightarrow> string \<Rightarrow> citation list \<Rightarrow> bool \<Rightarrow> (string, bool) query_result" where
  \<comment> \<open>the result \<open>record_result\<close> appends\<close>
  "result_row q a cs b =
     \<lparr>query = q, answer = a, status = (if b then Answered else NotFound), citations = cs,
      metrics = \<lparr>answerable = b, citation_ok = (cs \<noteq> []), hallucination = False,
                 completeness = round2 (completeness_score q a)\<rparr>\<rparr>"

definition row_ok :: "(string, bool) query_result \<Rightarrow> bool" where
  \<comment> \<open>the fields of a result agree with each other\<close>
  "row_ok r =
     (completeness (metrics r) = round2 (completeness_score (query r) (answer r)) \<and>
      answerable (metrics r) = (status r = Answered) \<and>
      citation_ok (metrics r) = (citations r \<noteq> []) \<and>
      \<not> hallucination (metrics r))"

definition placeholder_tally :: "tally \<Rightarrow> string list \<Rightarrow> tally" where
  \<comment> \<open>the tally after questions that all stopped at the relevance gate\<close>
  "placeholder_tally t qs = foldl (\<lambda>t q. record_result q ''NOT FOUND'' [] False t) t qs"

definition placeholder_report :: "string \<Rightarrow> string list \<Rightarrow> nat \<Rightarrow> nat \<Rightarrow> (string, bool) report" where
  \<comment> \<open>the report of a run in which every question stopped at the relevance gate\<close>
  "placeholder_report site qs n_pages n_chunks =
     \<lparr>site_url = site, crawled_pages = n_pages, indexed_chunks = n_chunks,
      queries_run = length qs,
      overall_scores =
        \<lparr>answerability_rate = 0, citation_coverage = 0, hallucination_rate = 0,
         overall_completeness =
           round2 (sum_list (map (\<lambda>q. completeness_score q ''NOT FOUND'') qs) / of_nat (length qs))\<rparr>,
      query_results = map (\<lambda>q. result_row q ''NOT FOUND'' [] False) qs,
      missing_topics = qs\<rparr>"

definition row_B ::
  "PageContent list \<Rightarrow> string \<Rightarrow> json \<Rightarrow> json \<Rightarrow> json \<Rightarrow> bool \<Rightarrow> (json, json) query_result" where
  \<comment> \<open>the result \<open>record_result_B\<close> appends\<close>
  "row_B pages site q a found b =
     \<lparr>query = q, answer = a, status = (if b then Answered else NotFound),
      citations = (if truthy found
                   then [\<lparr>cite_url = (if pages \<noteq> [] then url (hd pages) else site),
                           cite_section = ''page''\<rparr>]
                   else []),
      metrics = \<lparr>answerable = found, citation_ok = found, hallucination = False,
                 completeness = (if truthy found then 1 else 0)\<rparr>\<rparr>"

definition prompt_B :: "string \<Rightarrow> string list \<Rightarrow> PageContent list \<Rightarrow> string" where
  \<comment> \<open>the prompt \<open>run_answerability_benchmark\<close> of \<open>backend/benchmark.py\<close> builds from the
      host of the site, the questions and the pages\<close>
  "prompt_B domain queries_list pages =
     (let c = combine_pages pages [];
          combined_content =
            (if 50000 < length c then take 50000 c @ newline @ ''...[content truncated]...'' else c)
      in prompt_of domain (numbered_questions queries_list) combined_content)"

definition request_B :: "string \<Rightarrow> string \<Rightarrow> request" where
  \<comment> \<open>the one request that run makes\<close>
  "request_B model prompt =
     \<lparr>req_model = model, req_messages = [(''user'', prompt)], req_temperature = 1 / 10,
      req_max_tokens = Some 2000\<rparr>"

definition reply_B :: "env \<Rightarrow> request list \<Rightarrow> request \<Rightarrow> json option" where
  \<comment> \<open>the parsed reply to the request; \<open>None\<close> when the call raises or the reply is not JSON,
      the two cases in which an \<open>except\<close> branch builds the results from the questions\<close>
  "reply_B e calls req =
     (case chat_completion e calls req of
        Inl msg \<Rightarrow> None
      | Inr content \<Rightarrow> json_loads e (strip_code_fence (strip content)))"

definition path_tail :: "string \<Rightarrow> bool" where
  \<comment> \<open>what may follow a URL without touching its scheme or host: nothing, or a path that
      starts with a slash and has no colon, space or control character\<close>
  "path_tail t = ((t = [] \<or> hd t = CHR ''/'') \<and> (\<forall>c\<in>set t. \<not> c0_or_space c \<and> c \<noteq> CHR '':''))"

section \<open>More small worlds\<close>

text \<open>The shop without credential.\<close>

definition keyless_env :: env where
  "keyless_env = shop_env\<lparr>api_key := None\<rparr>"

text \<open>
  The shop with a completion service that answers the one question asked, adds an answer to
  a question of its own and reports a third one as not found.
\<close>

definition chatty_env :: env where
  "chatty_env = shop_env\<lparr>json_loads := (\<lambda>t. Some (JArr
     [JObj [(''query'', JStr ''What services do you offer?''),
            (''answer'', JStr ''Consulting.''), (''found'', JBool True)],
      JObj [(''query'', JStr ''What else do you offer?''),
            (''answer'', JStr ''Design.''), (''found'', JBool True)],
      JObj [(''query'', JStr ''Do you ship abroad?''),
            (''answer'', JStr ''NOT FOUND''), (''found'', JBool False)]]))\<rparr>"

text \<open>A question of 201 distinct tokens, the first of them \<open>not\<close>.\<close>

definition long_question :: string where
  "long_question = ''not'' @ concat (map (\<lambda>n. CHR '' '' # str_nat n) [0..<200])"

text \<open>The answer of the specification's example, its second marker a numeral of 4301 digits.\<close>

definition long_marker :: string where
  "long_marker = replicate 4301 CHR ''9''"

definition long_marker_answer :: string where
  "long_marker_answer = ''X [1] and Y ['' @ long_marker @ ''].''"

section \<open>Properties of the strings and the scorer\<close>

lemma runs_tokens: "w \<in> set (runs P s) \<Longrightarrow> w \<noteq> [] \<and> (\<forall>c\<in>set w. P c)"
proof (induction P s rule: runs.induct)
  case (1 P)
  then show ?case by simp
next
  case (2 P c cs)
  show ?case
  proof (cases "P c")
    case True
    with 2 have "w = c # takeWhile P cs \<or> w \<in> set (runs P (dropWhile P cs))" by simp
    then show ?thesis
    proof
      assume "w = c # takeWhile P cs"
      with True show ?thesis by (auto dest: set_takeWhileD)
    next
      assume "w \<in> set (runs P (dropWhile P cs))"
      with 2(1)[OF True] show ?thesis .
    qed
  next
    case False
    with 2 show ?thesis by simp
  qed
qed

lemma tokenize_tokens: "t \<in> set (tokenize q) \<Longrightarrow> t \<noteq> [] \<and> list_all is_lower_alnum t"
  unfolding tokenize_def list_all_iff by (rule runs_tokens)

lemma Counter_fold:
  "fold (\<lambda>t m. m(t := m t + 1)) xs m0 t = m0 t + count_list xs t"
  by (induction xs arbitrary: m0) auto

lemma Counter_count: "Counter xs t = count_list xs t"
  unfolding Counter_def Counter_fold by simp

lemma sum_count_disjoint:
  "set qs \<inter> set cs = {} \<Longrightarrow> (\<Sum>t\<leftarrow>qs. count_list cs t) = 0"
  by (induction qs) (auto simp: count_list_0_iff)

lemma score_overlap_eq: "score_overlap q c = score_spec q c"
proof (cases "tokenize q = []")
  case True
  then show ?thesis by (simp add: score_overlap_def score_spec_def)
next
  case False
  then have len: "max 1 (length (tokenize q)) = length (tokenize q)"
    by (cases "tokenize q") simp_all
  have cnt: "map (Counter (tokenize c)) (tokenize q) = map (count_list (tokenize c)) (tokenize q)"
    by (simp add: Counter_count)
  show ?thesis
    unfolding score_overlap_def score_spec_def Let_def cnt len using False by simp
qed

text \<open>
  Claim C6.  The relevance score is the sum, over the tokens of the query, of the number of
  times the token occurs among the tokens of the chunk, divided by the number of query
  tokens.  A query without tokens scores 0 against every chunk, and a chunk that has none of
  the query's tokens scores 0.  The tokens are non-empty runs of lower-case letters and
  digits.
\<close>

theorem score_overlap_spec:
  "score_overlap q c = score_spec q c \<and>
   (tokenize q = [] \<longrightarrow> score_overlap q c = 0) \<and>
   (set (tokenize q) \<inter> set (tokenize c) = {} \<longrightarrow> score_overlap q c = 0) \<and>
   (\<forall>t\<in>set (tokenize q). t \<noteq> [] \<and> list_all is_lower_alnum t)"
proof -
  have empty: "tokenize q = [] \<longrightarrow> score_overlap q c = 0"
    by (simp add: score_overlap_def)
  have disj: "set (tokenize q) \<inter> set (tokenize c) = {} \<longrightarrow> score_overlap q c = 0"
    unfolding score_overlap_eq score_spec_def by (simp add: sum_count_disjoint)
  from score_overlap_eq empty disj tokenize_tokens show ?thesis by blast
qed

theorem score_overlap_spec_witness:
  "score_overlap ''What services do you offer?'' shop_body = 2 / 5 \<and>
   tokenize ''?!'' = [] \<and> score_overlap ''?!'' shop_body = 0 \<and>
   set (tokenize ''Opening hours'') \<inter> set (tokenize shop_body) = {} \<and>
   score_overlap ''Opening hours'' shop_body = 0"
proof -
  have t1: "tokenize ''?!'' = []"
    by code_simp
  have t2: "set (tokenize ''Opening hours'') \<inter> set (tokenize shop_body) = {}"
    by code_simp
  have s: "score_spec ''What services do you offer?'' shop_body = 2 / 5"
    by code_simp
  from t1 t2 s score_overlap_spec[of "''?!''" shop_body]
    score_overlap_spec[of "''Opening hours''" shop_body]
    score_overlap_spec[of "''What services do you offer?''" shop_body]
  show ?thesis by simp
qed

section \<open>Properties of the chunker\<close>

lemma runs_append:
  assumes "w \<noteq> []" and "\<forall>c\<in>set w. P c" and "s = [] \<or> \<not> P (hd s)"
  shows "runs P (w @ s) = w # runs P s"
proof -
  from assms(1) obtain c w' where w: "w = c # w'" by (cases w) auto
  from assms(2) w have pc: "P c" and pw: "\<And>x. x \<in> set w' \<Longrightarrow> P x" by auto
  from assms(3) have tk: "takeWhile P s = []" and dr: "dropWhile P s = s"
    by (cases s; simp)+
  have t: "takeWhile P (w' @ s) = w'"
    using pw by (simp add: takeWhile_append2 tk)
  have d: "dropWhile P (w' @ s) = s"
    using pw by (simp add: dropWhile_append2 dr)
  show ?thesis
    unfolding w using pc by (simp add: t d)
qed

lemma runs_skip: "\<not> P c \<Longrightarrow> runs P (c # s) = runs P s"
  by simp

lemma split_join:
  "\<forall>w\<in>set ws. w \<noteq> [] \<and> (\<forall>c\<in>set w. \<not> is_space c) \<Longrightarrow> split_ws (join '' '' ws) = ws"
proof (induction "'' ''" ws rule: join.induct)
  case 1
  then show ?case by (simp add: split_ws_def)
next
  case (2 x)
  then have "runs (\<lambda>c. \<not> is_space c) (x @ []) = x # runs (\<lambda>c. \<not> is_space c) []"
    by (intro runs_append) auto
  then show ?case by (simp add: split_ws_def)
next
  case (3 x y ys)
  have sp: "is_space CHR '' ''" by (simp add: is_space_def)
  from 3 have ih: "split_ws (join '' '' (y # ys)) = y # ys" by simp
  from 3(2) sp have "runs (\<lambda>c. \<not> is_space c) (x @ (CHR '' '' # join '' '' (y # ys)))
      = x # runs (\<lambda>c. \<not> is_space c) (CHR '' '' # join '' '' (y # ys))"
    by (intro runs_append) auto
  also have "runs (\<lambda>c. \<not> is_space c) (CHR '' '' # join '' '' (y # ys))
      = runs (\<lambda>c. \<not> is_space c) (join '' '' (y # ys))"
    using sp by simp
  finally show ?case using ih by (simp add: split_ws_def)
qed

lemma split_ws_words: "w \<in> set (split_ws t) \<Longrightarrow> w \<noteq> [] \<and> (\<forall>c\<in>set w. \<not> is_space c)"
  unfolding split_ws_def by (rule runs_tokens)

lemma chunk_loop_default:
  assumes good: "\<forall>w\<in>set ws. w \<noteq> [] \<and> (\<forall>c\<in>set w. \<not> is_space c)"
  shows "start < length ws \<Longrightarrow>
    \<exists>cs. chunk_loop ws 800 120 start acc = Some (acc @ cs) \<and> cs \<noteq> [] \<and>
          split_ws (hd cs) = take 800 (drop start ws) \<and>
          split_ws (hd cs) @ concat (map (\<lambda>d. drop 120 (split_ws d)) (tl cs)) = drop start ws"
proof (induction "length ws - start" arbitrary: start acc rule: less_induct)
  case less
  let ?n = "length ws"
  let ?stop = "min ?n (start + 800)"
  let ?chunk = "join '' '' (take (?stop - start) (drop start ws))"
  have window: "take (?stop - start) (drop start ws) = take 800 (drop start ws)"
    using less.prems by (simp add: min_def)
  have "\<forall>w\<in>set (take 800 (drop start ws)). w \<noteq> [] \<and> (\<forall>c\<in>set w. \<not> is_space c)"
    using good by (meson in_set_dropD in_set_takeD)
  then have sp: "split_ws ?chunk = take 800 (drop start ws)"
    unfolding window by (rule split_join)
  show ?case
  proof (cases "?n \<le> ?stop")
    case True
    then have run: "chunk_loop ws 800 120 start acc = Some (acc @ [?chunk])"
      using less.prems by (subst chunk_loop.simps) (simp add: Let_def)
    from True have all: "take 800 (drop start ws) = drop start ws"
      by simp
    show ?thesis
      using run sp all by (intro exI[of _ "[?chunk]"]) simp
  next
    case False
    then have stop: "?stop = start + 800" and far: "start + 800 < ?n"
      by linarith+
    have run: "chunk_loop ws 800 120 start acc = chunk_loop ws 800 120 (start + 680) (acc @ [?chunk])"
      using less.prems False by (subst chunk_loop.simps) (simp add: Let_def stop add.commute)
    from far have next_lt: "start + 680 < ?n" and dec: "?n - (start + 680) < ?n - start"
      by simp_all
    from less.hyps[OF dec next_lt, of "acc @ [?chunk]"]
    obtain cs where cs: "chunk_loop ws 800 120 (start + 680) (acc @ [?chunk]) = Some ((acc @ [?chunk]) @ cs)"
      and ne: "cs \<noteq> []"
      and h: "split_ws (hd cs) = take 800 (drop (start + 680) ws)"
      and all: "split_ws (hd cs) @ concat (map (\<lambda>d. drop 120 (split_ws d)) (tl cs)) = drop (start + 680) ws"
      by blast
    from h far have len: "120 \<le> length (split_ws (hd cs))"
      by simp
    from ne have "concat (map (\<lambda>d. drop 120 (split_ws d)) cs)
        = drop 120 (split_ws (hd cs)) @ concat (map (\<lambda>d. drop 120 (split_ws d)) (tl cs))"
      by (cases cs) simp_all
    also have "\<dots> = drop 120 (split_ws (hd cs) @ concat (map (\<lambda>d. drop 120 (split_ws d)) (tl cs)))"
      using len by simp
    also have "\<dots> = drop (start + 800) ws"
      unfolding all by (simp add: add.commute)
    finally have rest: "concat (map (\<lambda>d. drop 120 (split_ws d)) cs) = drop (start + 800) ws" .
    have "take 800 (drop start ws) @ drop (start + 800) ws = drop start ws"
      by (metis add.commute append_take_drop_id drop_drop)
    with rest sp have whole: "split_ws ?chunk @ concat (map (\<lambda>d. drop 120 (split_ws d)) cs) = drop start ws"
      by simp
    show ?thesis
      using run cs sp whole by (intro exI[of _ "?chunk # cs"]) simp
  qed
qed

lemma chunk_text_rebuild:
  "\<exists>chunks. chunk_text t 800 120 = Some chunks \<and> rebuild chunks 120 = split_ws t"
proof (cases "split_ws t = []")
  case True
  then have "chunk_text t 800 120 = Some []"
    unfolding chunk_text_def by (subst chunk_loop.simps) simp
  with True show ?thesis by (simp add: rebuild_def)
next
  case False
  then have t: "t \<noteq> []" by (auto simp: split_ws_def)
  from False have pos: "0 < length (split_ws t)" by simp
  have good: "\<forall>w\<in>set (split_ws t). w \<noteq> [] \<and> (\<forall>c\<in>set w. \<not> is_space c)"
    using split_ws_words by blast
  from chunk_loop_default[OF good pos, of "[]"]
  obtain cs where cs: "chunk_loop (split_ws t) 800 120 0 [] = Some cs" and ne: "cs \<noteq> []"
    and all: "split_ws (hd cs) @ concat (map (\<lambda>d. drop 120 (split_ws d)) (tl cs)) = split_ws t"
    by auto
  from ne all have "rebuild cs 120 = split_ws t"
    by (cases cs) (simp_all add: rebuild_def)
  with cs t show ?thesis by (simp add: chunk_text_def)
qed

text \<open>
  Claim C8.  For every text, chunking with size 800 and overlap 120 returns, and the word
  sequences of the chunks, put one after the other with the first 120 words of every chunk
  but the first removed, are the words of the text: none lost, none repeated.
\<close>

theorem chunk_text_roundtrip:
  "\<exists>chunks. chunk_text t 800 120 = Some chunks \<and> rebuild chunks 120 = split_ws t"
  by (rule chunk_text_rebuild)

section \<open>Properties of the retriever\<close>

lemma sort_reverse_sorted:
  "sorted_wrt (\<lambda>a b. chunk_score b \<le> chunk_score a) (sort_reverse xs)"
proof -
  have "sorted (map (\<lambda>x. - chunk_score x) (sort_reverse xs))"
    unfolding sort_reverse_def by (rule sorted_sort_key)
  then show ?thesis
    unfolding sorted_map by simp
qed

lemma sort_reverse_stable:
  "filter (\<lambda>x. chunk_score x = s) (sort_reverse xs) = filter (\<lambda>x. chunk_score x = s) xs"
proof -
  have "filter (\<lambda>x. - chunk_score x = - s) (sort_key (\<lambda>x. - chunk_score x) xs)
        = filter (\<lambda>x. - chunk_score x = - s) xs"
    by (rule sort_key_stable)
  then show ?thesis by (simp add: sort_reverse_def)
qed

lemma sort_reverse_mset: "mset (sort_reverse xs) = mset xs"
  by (simp add: sort_reverse_def)

text \<open>
  Claim C5.  For a count \<open>k\<close> that is not negative, \<open>select_top_chunks\<close> returns
  \<open>min k n\<close> of the \<open>n\<close> scored chunks: the first \<open>k\<close> of the scored list sorted by
  score, highest first.  The result is ordered by non-increasing score; chunks of equal
  score keep the order they had in the input; and no chunk left out scores higher than a
  chunk returned.
\<close>

theorem select_top_chunks_spec:
  assumes "0 \<le> k"
  shows "int (length (select_top_chunks q chunks k)) = min k (int (length chunks)) \<and>
    select_top_chunks q chunks k = take (nat k) (sort_reverse (score_chunks q chunks)) \<and>
    sorted_wrt (\<lambda>a b. chunk_score b \<le> chunk_score a) (select_top_chunks q chunks k) \<and>
    (\<forall>s. prefix (filter (\<lambda>x. chunk_score x = s) (select_top_chunks q chunks k))
                (filter (\<lambda>x. chunk_score x = s) (score_chunks q chunks))) \<and>
    (\<exists>rest. mset (select_top_chunks q chunks k @ rest) = mset (score_chunks q chunks) \<and>
       (\<forall>a\<in>set (select_top_chunks q chunks k). \<forall>b\<in>set rest. chunk_score b \<le> chunk_score a))"
proof -
  let ?ys = "sort_reverse (score_chunks q chunks)"
  let ?r = "select_top_chunks q chunks k"
  from assms have r: "?r = take (nat k) ?ys"
    by (simp add: select_top_chunks_def py_prefix_def)
  have len_ys: "length ?ys = length chunks"
    by (simp add: sort_reverse_def score_chunks_def)
  have "int (min (nat k) (length chunks)) = min k (int (length chunks))"
    using assms by linarith
  then have len: "int (length ?r) = min k (int (length chunks))"
    by (simp add: r len_ys)
  have srt: "sorted_wrt (\<lambda>a b. chunk_score b \<le> chunk_score a) ?r"
    unfolding r by (rule sorted_wrt_take) (rule sort_reverse_sorted)
  have stab: "prefix (filter (\<lambda>x. chunk_score x = s) ?r)
                (filter (\<lambda>x. chunk_score x = s) (score_chunks q chunks))" for s
  proof -
    have "prefix (filter (\<lambda>x. chunk_score x = s) (take (nat k) ?ys))
            (filter (\<lambda>x. chunk_score x = s) ?ys)"
      by (rule filter_mono_prefix) (rule take_is_prefix)
    then show ?thesis by (simp only: r sort_reverse_stable)
  qed
  have split: "?ys = ?r @ drop (nat k) ?ys"
    by (simp add: r)
  have m: "mset (?r @ drop (nat k) ?ys) = mset (score_chunks q chunks)"
    using split sort_reverse_mset[of "score_chunks q chunks"] by simp
  have "sorted_wrt (\<lambda>a b. chunk_score b \<le> chunk_score a) (?r @ drop (nat k) ?ys)"
    using sort_reverse_sorted[of "score_chunks q chunks"] split by simp
  then have top: "\<forall>a\<in>set ?r. \<forall>b\<in>set (drop (nat k) ?ys). chunk_score b \<le> chunk_score a"
    by (simp add: sorted_wrt_append)
  from m top have ex: "\<exists>rest. mset (?r @ rest) = mset (score_chunks q chunks) \<and>
       (\<forall>a\<in>set ?r. \<forall>b\<in>set rest. chunk_score b \<le> chunk_score a)"
    by blast
  from len r srt stab ex show ?thesis by blast
qed

theorem select_top_chunks_spec_witness:
  "(0::int) \<le> 3 \<and>
   select_top_chunks ''a b''
     [(''u1'', ''a''), (''u2'', ''b b''), (''u3'', ''a c''), (''u4'', ''a b x b'')] 3 =
     [(''u4'', ''a b x b'', 3 / 2), (''u2'', ''b b'', 1), (''u1'', ''a'', 1 / 2)] \<and>
   int (length (select_top_chunks ''a b''
     [(''u1'', ''a''), (''u2'', ''b b''), (''u3'', ''a c''), (''u4'', ''a b x b'')] 3)) = 3"
proof -
  have v: "select_top_chunks ''a b''
     [(''u1'', ''a''), (''u2'', ''b b''), (''u3'', ''a c''), (''u4'', ''a b x b'')] 3 =
     [(''u4'', ''a b x b'', 3 / 2), (''u2'', ''b b'', 1), (''u1'', ''a'', 1 / 2)]"
    by code_simp
  have k: "(0::int) \<le> 3" by simp
  have "int (length (select_top_chunks ''a b''
     [(''u1'', ''a''), (''u2'', ''b b''), (''u3'', ''a c''), (''u4'', ''a b x b'')] 3)) =
     min 3 (int (length [(''u1'', ''a''), (''u2'', ''b b''), (''u3'', ''a c''), (''u4'', ''a b x b'')]))"
    using select_top_chunks_spec[OF k, of "''a b''"
      "[(''u1'', ''a''), (''u2'', ''b b''), (''u3'', ''a c''), (''u4'', ''a b x b'')]"]
    by (rule conjunct1)
  then have "int (length (select_top_chunks ''a b''
     [(''u1'', ''a''), (''u2'', ''b b''), (''u3'', ''a c''), (''u4'', ''a b x b'')] 3)) = 3"
    by simp
  with k v show ?thesis by simp
qed

section \<open>Properties of the answer synthesizer\<close>

text \<open>
  Claim C1.  When the list of top chunks is empty, or its highest score is below 0.2, the
  synthesizer returns \<open>NOT FOUND\<close> with no citation and \<open>answerable = False\<close>, and the list
  of requests made to the completion service comes back as it went in: no call is made.
\<close>

theorem build_answer_gate:
  "top_chunks = [] \<or> Max (set (map chunk_score top_chunks)) < 2 / 10 \<Longrightarrow>
   build_answer e q top_chunks model calls = (Inr (''NOT FOUND'', [], False), calls)"
proof (cases top_chunks)
  case Nil
  then show ?thesis by (simp add: build_answer_def)
next
  case (Cons x xs)
  assume "top_chunks = [] \<or> Max (set (map chunk_score top_chunks)) < 2 / 10"
  with Cons have m: "Max (set (map chunk_score (x # xs))) < 2 / 10" by simp
  have "chunk_score x \<le> Max (set (map chunk_score (x # xs)))"
    by (rule Max_ge) simp_all
  from this m have "chunk_score x < 2 / 10" by (rule le_less_trans)
  with Cons have "top_chunks = [] \<or> chunk_score (hd top_chunks) < 2 / 10" by simp
  then show ?thesis unfolding build_answer_def by (rule if_P)
qed

theorem build_answer_gate_witness:
  "Max (set (map chunk_score [(''u1'', ''a'', 1 / 10), (''u2'', ''b'', 0)])) < 2 / 10 \<and>
   build_answer shop_env ''q'' [(''u1'', ''a'', 1 / 10), (''u2'', ''b'', 0)] ''gpt-4o-mini'' [] =
     (Inr (''NOT FOUND'', [], False), []) \<and>
   build_answer shop_env ''q'' [] ''gpt-4o-mini'' [] = (Inr (''NOT FOUND'', [], False), [])"
proof -
  have m: "Max (set (map chunk_score [(''u1'', ''a'', 1 / 10), (''u2'', ''b'', 0)])) < 2 / 10"
    by (simp add: chunk_score_def)
  from m build_answer_gate[of "[(''u1'', ''a'', 1 / 10), (''u2'', ''b'', 0)]" shop_env "''q''"
      "''gpt-4o-mini''" "[]"]
    build_answer_gate[of "[]" shop_env "''q''" "''gpt-4o-mini''" "[]"]
  show ?thesis by simp
qed

lemma cite_nat:
  "cite sources n S = (if 1 \<le> n \<and> n \<le> length sources then insert (sources ! (n - 1)) S else S)"
proof -
  have idx: "nat (int n - 1) = n - 1" by simp
  have rng: "(0 \<le> int n - 1 \<and> int n - 1 < int (length sources)) = (1 \<le> n \<and> n \<le> length sources)"
    by auto
  show ?thesis unfolding cite_def Let_def idx rng ..
qed

lemma py_int_short: "length m \<le> MAX_STR_DIGITS \<Longrightarrow> py_int m = Inr (parse_nat m)"
  by (simp add: py_int_def)

lemma py_int_long: "MAX_STR_DIGITS < length m \<Longrightarrow> py_int m = Inl ValueError"
  by (simp add: py_int_def)

lemma cite_markers_short:
  "\<forall>m\<in>set ms. length m \<le> MAX_STR_DIGITS \<Longrightarrow>
   cite_markers sources ms S =
     Inr (S \<union> {sources ! (n - 1) | n. n \<in> set (map parse_nat ms) \<and> 1 \<le> n \<and> n \<le> length sources})"
proof (induction ms arbitrary: S)
  case Nil
  show ?case by simp
next
  case (Cons m ms)
  from Cons.prems have m: "py_int m = Inr (parse_nat m)"
    and rest: "\<forall>m\<in>set ms. length m \<le> MAX_STR_DIGITS"
    by (simp_all add: py_int_short)
  have "cite_markers sources (m # ms) S = cite_markers sources ms (cite sources (parse_nat m) S)"
    by (simp add: m)
  also have "\<dots> = Inr (cite sources (parse_nat m) S \<union>
       {sources ! (n - 1) | n. n \<in> set (map parse_nat ms) \<and> 1 \<le> n \<and> n \<le> length sources})"
    by (rule Cons.IH[OF rest])
  also have "cite sources (parse_nat m) S \<union>
       {sources ! (n - 1) | n. n \<in> set (map parse_nat ms) \<and> 1 \<le> n \<and> n \<le> length sources} =
     S \<union> {sources ! (n - 1) | n. n \<in> set (map parse_nat (m # ms)) \<and> 1 \<le> n \<and> n \<le> length sources}"
    by (auto simp: cite_nat)
  finally show ?case .
qed

lemma cite_markers_long:
  "\<exists>m\<in>set ms. MAX_STR_DIGITS < length m \<Longrightarrow> cite_markers sources ms S = Inl ValueError"
proof (induction ms arbitrary: S)
  case Nil
  then show ?case by simp
next
  case (Cons m ms)
  show ?case
  proof (cases "MAX_STR_DIGITS < length m")
    case True
    then show ?thesis by (simp add: py_int_long)
  next
    case False
    with Cons.prems have "\<exists>m\<in>set ms. MAX_STR_DIGITS < length m" by auto
    from Cons.IH[OF this] False show ?thesis by (simp add: py_int_def)
  qed
qed

lemma cited_spec_finite: "finite (cited_spec a sources)"
proof -
  have "cited_spec a sources \<subseteq> set sources"
    by (auto simp: cited_spec_def)
  then show ?thesis by (rule finite_subset) simp
qed

lemma extract_citations_eq:
  "extract_citations a sources =
     (if \<exists>m\<in>set (find_markers a). MAX_STR_DIGITS < length m then Inl ValueError
      else Inr (map (\<lambda>u. \<lparr>cite_url = u, cite_section = ''page''\<rparr>)
                  (sorted_list_of_set (cited_spec a sources))))"
proof (cases "\<exists>m\<in>set (find_markers a). MAX_STR_DIGITS < length m")
  case True
  from cite_markers_long[OF this] True show ?thesis
    by (simp add: extract_citations_def)
next
  case False
  then have "\<forall>m\<in>set (find_markers a). length m \<le> MAX_STR_DIGITS" by auto
  from cite_markers_short[OF this] False show ?thesis
    by (simp add: extract_citations_def cited_spec_def)
qed

text \<open>
  As long as no marker of the answer has more than 4300 digits, citation extraction returns
  one citation for each source that a marker \<open>[n]\<close> of the answer points to, counting the
  sources from 1, and a marker outside \<open>1..L\<close> adds nothing.  The citations are sorted by
  URL, no URL occurs twice, and every section is \<open>page\<close>.  On the answer
  \<open>X [1] and Y [3].\<close> with two sources the result is the first source alone.
\<close>

lemma extract_citations_within_limit:
  assumes "\<forall>m\<in>set (find_markers a). length m \<le> MAX_STR_DIGITS"
  shows "\<exists>cs. extract_citations a sources = Inr cs \<and>
     cs = map (\<lambda>u. \<lparr>cite_url = u, cite_section = ''page''\<rparr>) (sorted_list_of_set (cited_spec a sources)) \<and>
     set (map cite_url cs) = cited_spec a sources \<and>
     sorted (map cite_url cs) \<and>
     distinct (map cite_url cs) \<and>
     (\<forall>c\<in>set cs. cite_section c = ''page'')"
proof -
  let ?cs = "map (\<lambda>u. \<lparr>cite_url = u, cite_section = ''page''\<rparr>) (sorted_list_of_set (cited_spec a sources))"
  from assms have "\<not> (\<exists>m\<in>set (find_markers a). MAX_STR_DIGITS < length m)" by auto
  then have r: "extract_citations a sources = Inr ?cs"
    by (simp add: extract_citations_eq)
  have urls: "map cite_url ?cs = sorted_list_of_set (cited_spec a sources)"
    by (simp add: comp_def)
  have sec: "\<forall>c\<in>set ?cs. cite_section c = ''page''" by auto
  have s1: "set (map cite_url ?cs) = cited_spec a sources"
    unfolding urls using cited_spec_finite[of a sources] by simp
  have s2: "sorted (map cite_url ?cs)" unfolding urls by simp
  have s3: "distinct (map cite_url ?cs)" unfolding urls by simp
  from r s1 s2 s3 sec show ?thesis by blast
qed

lemma extract_citations_example:
  "extract_citations ''X [1] and Y [3].'' [s1, s2] = Inr [\<lparr>cite_url = s1, cite_section = ''page''\<rparr>]"
  by (simp add: extract_citations_def py_int_def MAX_STR_DIGITS_def cite_def is_digit_def
      parse_nat_def)

lemma extract_citations_unsorted:
  "extract_citations ''See [2], [1], [2] and [0] or [7].'' [''http://b'', ''http://a'', ''http://c''] =
     Inr [\<lparr>cite_url = ''http://a'', cite_section = ''page''\<rparr>,
          \<lparr>cite_url = ''http://b'', cite_section = ''page''\<rparr>]"
  by code_simp

lemma find_markers_bracketed:
  assumes ne: "ds \<noteq> []" and dig: "\<forall>c\<in>set ds. is_digit c"
  shows "find_markers (CHR ''['' # ds @ CHR '']'' # post) = ds # find_markers post"
proof -
  have nd: "\<not> is_digit CHR '']''" by (simp add: is_digit_def)
  from dig have tw: "takeWhile is_digit (ds @ CHR '']'' # post) = ds"
    by (simp add: takeWhile_append2 nd)
  from dig have dw: "dropWhile is_digit (ds @ CHR '']'' # post) = CHR '']'' # post"
    by (simp add: dropWhile_append2 nd)
  show ?thesis
    by (simp only: find_markers.simps tw dw) (simp add: ne)
qed

lemma long_marker_digits:
  "long_marker \<noteq> []" "\<forall>c\<in>set long_marker. is_digit c" "length long_marker = 4301"
  by (simp_all add: long_marker_def is_digit_def)

lemma find_markers_long_answer: "find_markers long_marker_answer = [''1'', long_marker]"
proof -
  have "find_markers long_marker_answer =
          ''1'' # find_markers ('' and Y '' @ CHR ''['' # long_marker @ CHR '']'' # ''.'')"
    by (simp add: long_marker_answer_def is_digit_def)
  also have "find_markers ('' and Y '' @ CHR ''['' # long_marker @ CHR '']'' # ''.'') =
          find_markers (CHR ''['' # long_marker @ CHR '']'' # ''.'')"
    by simp
  also have "\<dots> = long_marker # find_markers ''.''"
    using long_marker_digits(1,2) by (rule find_markers_bracketed)
  finally show ?thesis by simp
qed

lemma build_answer_citation_error:
  assumes "\<not> (top_chunks = [] \<or> chunk_score (hd top_chunks) < 2 / 10)"
    and "call_openai_answer e q (fst (build_context top_chunks)) model calls = (Inr a, calls')"
    and "extract_citations a (snd (build_context top_chunks)) = Inl err"
  shows "build_answer e q top_chunks model calls = (Inl err, calls')"
proof -
  obtain ctx srcs where c: "build_context top_chunks = (ctx, srcs)"
    by (cases "build_context top_chunks")
  with assms(2,3) have "call_openai_answer e q ctx model calls = (Inr a, calls')"
    and "extract_citations a srcs = Inl err" by simp_all
  with assms(1) c show ?thesis
    unfolding build_answer_def by (simp add: Let_def)
qed

text \<open>
  Claim C7.  The claim has every marker outside \<open>1..L\<close> ignored without an error, for
  every answer text.  The program converts each marker with \<open>int(match)\<close> before it compares
  the index with the number of sources, and the conversion of a marker of more than 4300
  digits raises \<open>ValueError\<close>, which nothing catches.  On the answer of the claim's own
  example with a marker of 4301 digits in the place of \<open>[3]\<close>, citation extraction returns
  no list but that error; with \<open>[3]\<close> in that place the result is the first source alone,
  as the claim has it.
\<close>

theorem extract_citations_long_marker:
  "extract_citations long_marker_answer [s1, s2] = Inl ValueError \<and>
   extract_citations ''X [1] and Y [3].'' [s1, s2] = Inr [\<lparr>cite_url = s1, cite_section = ''page''\<rparr>] \<and>
   length long_marker = 4301 \<and> list_all is_digit long_marker"
proof -
  have "\<exists>m\<in>set (find_markers long_marker_answer). MAX_STR_DIGITS < length m"
    by (simp add: find_markers_long_answer long_marker_digits(3) MAX_STR_DIGITS_def)
  then have "extract_citations long_marker_answer [s1, s2] = Inl ValueError"
    by (simp only: extract_citations_eq if_True)
  moreover have "list_all is_digit long_marker"
    using long_marker_digits(2) by (simp add: list_all_iff)
  ultimately show ?thesis
    using extract_citations_example[of s1 s2] long_marker_digits(3) by simp
qed

section \<open>Properties of rounding\<close>

lemma round2_nearest:
  "\<exists>m. round2 x = of_int m / 100 \<and> of_int m - 1 / 2 \<le> x * 100 \<and> x * 100 \<le> of_int m + 1 / 2"
proof -
  let ?y = "x * 100"
  let ?f = "\<lfloor>?y\<rfloor>"
  have lo: "of_int ?f \<le> ?y" and hi: "?y < of_int ?f + 1"
    by linarith+
  consider (down) "?y - of_int ?f < 1 / 2" | (up) "1 / 2 < ?y - of_int ?f"
    | (tie) "?y - of_int ?f = 1 / 2"
    by linarith
  then show ?thesis
  proof cases
    case down
    then have "round2 x = of_int ?f / 100"
      unfolding round2_def Let_def by (simp only: if_True)
    moreover from down lo have "of_int ?f - 1 / 2 \<le> ?y \<and> ?y \<le> of_int ?f + 1 / 2"
      by linarith
    ultimately show ?thesis by blast
  next
    case up
    then have "\<not> ?y - of_int ?f < 1 / 2" by linarith
    with up have "round2 x = of_int (?f + 1) / 100"
      unfolding round2_def Let_def by (simp only: if_True if_False)
    moreover from up hi have "of_int (?f + 1) - 1 / 2 \<le> ?y \<and> ?y \<le> of_int (?f + 1) + 1 / 2"
      by simp
    ultimately show ?thesis by blast
  next
    case tie
    then have n1: "\<not> ?y - of_int ?f < 1 / 2" and n2: "\<not> 1 / 2 < ?y - of_int ?f"
      by linarith+
    let ?m = "if float_of x < x then ?f else if x < float_of x then ?f + 1
              else if even ?f then ?f else ?f + 1"
    from n1 n2 have "round2 x = of_int ?m / 100"
      unfolding round2_def Let_def by (simp only: if_False)
    moreover have "?m = ?f \<or> ?m = ?f + 1" by presburger
    with tie have "of_int ?m - 1 / 2 \<le> ?y \<and> ?y \<le> of_int ?m + 1 / 2"
      by auto
    ultimately show ?thesis by blast
  qed
qed

lemma round2_nonneg: "0 \<le> x \<Longrightarrow> 0 \<le> round2 x"
proof -
  assume x: "0 \<le> x"
  from round2_nearest[of x] obtain m where r: "round2 x = of_int m / 100"
    and lo: "of_int m - 1 / 2 \<le> x * 100" and hi: "x * 100 \<le> of_int m + 1 / 2" by blast
  from x hi have "(of_int (-1) :: rat) < of_int m" by simp
  then have "-1 < m" by (simp only: of_int_less_iff)
  then have "(0::rat) \<le> of_int m" by simp
  then show ?thesis unfolding r by simp
qed

lemma round2_le_one: "x \<le> 1 \<Longrightarrow> round2 x \<le> 1"
proof -
  assume x: "x \<le> 1"
  from round2_nearest[of x] obtain m where r: "round2 x = of_int m / 100"
    and lo: "of_int m - 1 / 2 \<le> x * 100" and hi: "x * 100 \<le> of_int m + 1 / 2" by blast
  from x lo have "(of_int m :: rat) < of_int 101" by simp
  then have "m < 101" by (simp only: of_int_less_iff)
  then have "(of_int m :: rat) \<le> 100" by simp
  then show ?thesis unfolding r by simp
qed

lemma round2_pos: "1 / 200 < x \<Longrightarrow> 0 < round2 x"
proof -
  assume x: "1 / 200 < x"
  from round2_nearest[of x] obtain m where r: "round2 x = of_int m / 100"
    and lo: "of_int m - 1 / 2 \<le> x * 100" and hi: "x * 100 \<le> of_int m + 1 / 2" by blast
  from x hi have "(of_int 0 :: rat) < of_int m" by simp
  then have "0 < m" by (simp only: of_int_less_iff)
  then have "(0::rat) < of_int m" by simp
  then show ?thesis unfolding r by simp
qed

lemma round2_zero: "round2 0 = 0"
  by (simp add: round2_def)

text \<open>Quotients halfway between two hundredths, as the interpreter rounds them.\<close>

lemma round2_ties:
  "round2 (1 / 200) = 1 / 100" "round2 (3 / 200) = 1 / 100" "round2 (1 / 40) = 3 / 100"
  "round2 (9 / 200) = 4 / 100" "round2 (1 / 8) = 12 / 100" "round2 (3 / 8) = 38 / 100"
  "round2 (2675 / 1000) = 267 / 100"
  by code_simp+

lemma float_of_examples:
  "float_of (1 / 200) = 5764607523034235 / 1152921504606846976"
  "float_of (1 / 5) = 3602879701896397 / 18014398509481984"
  "float_of (1 / 8) = 1 / 8"
  by code_simp+

section \<open>Properties of the per-question aggregator\<close>

lemma record_result_fields:
  "results (record_result q a cs b t) = results t @ [result_row q a cs b]"
  "missing (record_result q a cs b t) = (if b then missing t else missing t @ [q])"
  "answerable_count (record_result q a cs b t) = answerable_count t + (if b then 1 else 0)"
  "citation_ok_count (record_result q a cs b t) =
     citation_ok_count t + (if b \<and> cs \<noteq> [] then 1 else 0)"
  "hallucinations (record_result q a cs b t) = hallucinations t"
  "completeness_scores (record_result q a cs b t) = completeness_scores t @ [completeness_score q a]"
  by (simp_all add: record_result_def result_row_def Let_def)

lemma result_row_fields:
  "query (result_row q a cs b) = q"
  "answer (result_row q a cs b) = a"
  "status (result_row q a cs b) = (if b then Answered else NotFound)"
  "citations (result_row q a cs b) = cs"
  "row_ok (result_row q a cs b)"
  by (simp_all add: result_row_def row_ok_def)

lemma build_answer_closed:
  "gate_closed q chunks \<Longrightarrow>
   build_answer e q (select_top_chunks q chunks 3) model calls = (Inr (''NOT FOUND'', [], False), calls)"
  unfolding gate_closed_def build_answer_def by (rule if_P)

lemma query_loop_step:
  "build_answer e q (select_top_chunks q chunks 3) model calls = (Inr (a, cs, b), calls1) \<Longrightarrow>
   query_loop e chunks model (q # qs) t calls =
     query_loop e chunks model qs (record_result q a cs b t) calls1"
  by (simp add: Let_def)

lemma query_loop_stop:
  "build_answer e q (select_top_chunks q chunks 3) model calls = (Inl err, calls1) \<Longrightarrow>
   query_loop e chunks model (q # qs) t calls = (Inl err, calls1)"
  by (simp add: Let_def)

lemma query_loop_rows:
  "query_loop e chunks model qs t calls = (Inr t', calls') \<Longrightarrow>
   \<exists>rs. results t' = results t @ rs \<and> map query rs = qs \<and>
     (\<forall>r\<in>set rs. row_ok r \<and>
        (gate_closed (query r) chunks \<longrightarrow> answer r = ''NOT FOUND'' \<and> status r = NotFound
           \<and> citations r = [])) \<and>
     missing t' = missing t @ map query (filter (\<lambda>r. status r = NotFound) rs) \<and>
     answerable_count t' = answerable_count t + length (filter (\<lambda>r. status r = Answered) rs) \<and>
     citation_ok_count t' =
       citation_ok_count t + length (filter (\<lambda>r. status r = Answered \<and> citations r \<noteq> []) rs) \<and>
     hallucinations t' = hallucinations t \<and>
     completeness_scores t' =
       completeness_scores t @ map (\<lambda>r. completeness_score (query r) (answer r)) rs"
proof (induction qs arbitrary: t calls)
  case Nil
  then show ?case by simp
next
  case (Cons q qs)
  obtain res calls1 where ba: "build_answer e q (select_top_chunks q chunks 3) model calls = (res, calls1)"
    by (cases "build_answer e q (select_top_chunks q chunks 3) model calls")
  show ?case
  proof (cases res)
    case (Inl err)
    with ba Cons.prems query_loop_stop[of e q chunks model calls err calls1 qs t]
    show ?thesis by simp
  next
    case (Inr triple)
    obtain a cs b where triple: "triple = (a, cs, b)" by (cases triple)
    from ba Inr triple have ba': "build_answer e q (select_top_chunks q chunks 3) model calls = (Inr (a, cs, b), calls1)"
      by simp
    let ?t1 = "record_result q a cs b t"
    let ?row = "result_row q a cs b"
    from query_loop_step[OF ba'] Cons.prems
    have "query_loop e chunks model qs ?t1 calls1 = (Inr t', calls')" by simp
    from Cons.IH[OF this] obtain rs where
      rs: "results t' = results ?t1 @ rs" "map query rs = qs"
        "\<forall>r\<in>set rs. row_ok r \<and>
           (gate_closed (query r) chunks \<longrightarrow> answer r = ''NOT FOUND'' \<and> status r = NotFound
              \<and> citations r = [])"
        "missing t' = missing ?t1 @ map query (filter (\<lambda>r. status r = NotFound) rs)"
        "answerable_count t' = answerable_count ?t1 + length (filter (\<lambda>r. status r = Answered) rs)"
        "citation_ok_count t' =
           citation_ok_count ?t1 + length (filter (\<lambda>r. status r = Answered \<and> citations r \<noteq> []) rs)"
        "hallucinations t' = hallucinations ?t1"
        "completeness_scores t' =
           completeness_scores ?t1 @ map (\<lambda>r. completeness_score (query r) (answer r)) rs"
      by blast
    have gate: "gate_closed q chunks \<longrightarrow> a = ''NOT FOUND'' \<and> \<not> b \<and> cs = []"
      using build_answer_closed[of q chunks e model calls] ba' by auto
    have row: "row_ok ?row \<and>
           (gate_closed (query ?row) chunks \<longrightarrow> answer ?row = ''NOT FOUND'' \<and> status ?row = NotFound
              \<and> citations ?row = [])"
      using gate by (simp add: result_row_fields)
    show ?thesis
    proof (intro exI[of _ "?row # rs"] conjI)
      show "results t' = results t @ ?row # rs"
        using rs(1) by (simp add: record_result_fields)
      show "map query (?row # rs) = q # qs"
        using rs(2) by (simp add: result_row_fields)
      show "\<forall>r\<in>set (?row # rs). row_ok r \<and>
           (gate_closed (query r) chunks \<longrightarrow> answer r = ''NOT FOUND'' \<and> status r = NotFound
              \<and> citations r = [])"
        using row rs(3) by simp
      show "missing t' = missing t @ map query (filter (\<lambda>r. status r = NotFound) (?row # rs))"
        using rs(4) by (simp add: record_result_fields result_row_fields)
      show "answerable_count t' = answerable_count t + length (filter (\<lambda>r. status r = Answered) (?row # rs))"
        using rs(5) by (simp add: record_result_fields result_row_fields)
      show "citation_ok_count t' =
           citation_ok_count t + length (filter (\<lambda>r. status r = Answered \<and> citations r \<noteq> []) (?row # rs))"
        using rs(6) by (simp add: record_result_fields result_row_fields)
      show "hallucinations t' = hallucinations t"
        using rs(7) by (simp add: record_result_fields)
      show "completeness_scores t' =
           completeness_scores t @ map (\<lambda>r. completeness_score (query r) (answer r)) (?row # rs)"
        using rs(8) by (simp add: record_result_fields result_row_fields)
    qed
  qed
qed

lemma completeness_score_bounds: "0 \<le> completeness_score q a \<and> completeness_score q a \<le> 1"
proof (cases "set (tokenize q) = {}")
  case True
  then show ?thesis by (simp add: completeness_score_def)
next
  case False
  let ?Q = "set (tokenize q)"
  let ?A = "set (tokenize a)"
  have "card (?Q \<inter> ?A) \<le> card ?Q"
    by (rule card_mono) simp_all
  then have le: "(of_nat (card (?Q \<inter> ?A)) :: rat) \<le> of_nat (card ?Q)"
    by (simp only: of_nat_le_iff)
  from False have "0 < card ?Q" by (simp add: card_gt_0_iff)
  then have pos: "(0::rat) < of_nat (card ?Q)" by simp
  have eq: "completeness_score q a = of_nat (card (?Q \<inter> ?A)) / of_nat (card ?Q)"
    using False by (simp add: completeness_score_def Let_def)
  from le pos show ?thesis unfolding eq by (simp add: divide_le_eq_1)
qed

lemma tokenize_not_found: "tokenize ''NOT FOUND'' = [''not'', ''found'']"
  by code_simp

lemma completeness_placeholder:
  assumes "''not'' \<in> set (tokenize q) \<or> ''found'' \<in> set (tokenize q)"
  shows "1 / of_nat (card (set (tokenize q))) \<le> completeness_score q ''NOT FOUND'' \<and>
         0 < completeness_score q ''NOT FOUND''"
proof -
  let ?Q = "set (tokenize q)"
  let ?A = "set (tokenize ''NOT FOUND'')"
  from assms have ne: "?Q \<inter> ?A \<noteq> {}" by (auto simp: tokenize_not_found)
  then have Qne: "?Q \<noteq> {}" by auto
  from ne have "0 < card (?Q \<inter> ?A)" by (simp add: card_gt_0_iff)
  then have one: "(1::rat) \<le> of_nat (card (?Q \<inter> ?A))" by simp
  from Qne have "0 < card ?Q" by (simp add: card_gt_0_iff)
  then have pos: "(0::rat) < of_nat (card ?Q)" by simp
  have eq: "completeness_score q ''NOT FOUND'' = of_nat (card (?Q \<inter> ?A)) / of_nat (card ?Q)"
    using Qne by (simp add: completeness_score_def Let_def)
  from one pos have "1 / of_nat (card ?Q) \<le> of_nat (card (?Q \<inter> ?A)) / (of_nat (card ?Q) :: rat)"
    by (simp add: divide_le_cancel)
  moreover from one pos have "0 < of_nat (card (?Q \<inter> ?A)) / (of_nat (card ?Q) :: rat)"
    by simp
  ultimately show ?thesis unfolding eq by blast
qed

lemma call_openai_no_key:
  "key_missing e \<Longrightarrow> call_openai_answer e q ctx model calls = (Inl config_error, calls)"
  by (simp add: call_openai_answer_def)

lemma build_answer_no_key:
  "key_missing e \<Longrightarrow> \<not> gate_closed q chunks \<Longrightarrow>
   build_answer e q (select_top_chunks q chunks 3) model calls = (Inl config_error, calls)"
  by (simp add: build_answer_def gate_closed_def call_openai_no_key split: prod.splits)

lemma query_loop_closed:
  "\<forall>q\<in>set qs. gate_closed q chunks \<Longrightarrow>
   query_loop e chunks model qs t calls = (Inr (placeholder_tally t qs), calls)"
proof (induction qs arbitrary: t)
  case Nil
  then show ?case by (simp add: placeholder_tally_def)
next
  case (Cons q qs)
  then have g: "gate_closed q chunks" and rest: "\<forall>q\<in>set qs. gate_closed q chunks" by simp_all
  have "query_loop e chunks model (q # qs) t calls =
     query_loop e chunks model qs (record_result q ''NOT FOUND'' [] False t) calls"
    by (rule query_loop_step) (rule build_answer_closed[OF g])
  also have "\<dots> = (Inr (placeholder_tally (record_result q ''NOT FOUND'' [] False t) qs), calls)"
    by (rule Cons.IH[OF rest])
  finally show ?case by (simp add: placeholder_tally_def)
qed

lemma query_loop_no_key:
  "key_missing e \<Longrightarrow>
   query_loop e chunks model qs t calls =
     (if \<forall>q\<in>set qs. gate_closed q chunks then (Inr (placeholder_tally t qs), calls)
      else (Inl config_error, calls))"
proof (induction qs arbitrary: t)
  case Nil
  then show ?case by (simp add: placeholder_tally_def)
next
  case (Cons q qs)
  show ?case
  proof (cases "gate_closed q chunks")
    case True
    have "query_loop e chunks model (q # qs) t calls =
       query_loop e chunks model qs (record_result q ''NOT FOUND'' [] False t) calls"
      by (rule query_loop_step) (rule build_answer_closed[OF True])
    also have "\<dots> = (if \<forall>q\<in>set qs. gate_closed q chunks
        then (Inr (placeholder_tally (record_result q ''NOT FOUND'' [] False t) qs), calls)
        else (Inl config_error, calls))"
      by (rule Cons.IH[OF Cons.prems])
    finally show ?thesis using True by (simp add: placeholder_tally_def)
  next
    case False
    have "query_loop e chunks model (q # qs) t calls = (Inl config_error, calls)"
      by (rule query_loop_stop) (rule build_answer_no_key[OF Cons.prems False])
    with False show ?thesis by simp
  qed
qed

lemma placeholder_tally_fields:
  "results (placeholder_tally t qs) = results t @ map (\<lambda>q. result_row q ''NOT FOUND'' [] False) qs"
  "missing (placeholder_tally t qs) = missing t @ qs"
  "answerable_count (placeholder_tally t qs) = answerable_count t"
  "citation_ok_count (placeholder_tally t qs) = citation_ok_count t"
  "hallucinations (placeholder_tally t qs) = hallucinations t"
  "completeness_scores (placeholder_tally t qs) =
     completeness_scores t @ map (\<lambda>q. completeness_score q ''NOT FOUND'') qs"
  unfolding placeholder_tally_def
  by (induction qs arbitrary: t; simp add: record_result_fields)+

lemma gate_closed_empty: "gate_closed q []"
  by (simp add: gate_closed_def select_top_chunks_def score_chunks_def sort_reverse_def py_prefix_def)

lemma queries_list_nonempty: "queries_list_of queries \<noteq> []"
  by (simp add: queries_list_of_def DEFAULT_QUERIES_def split: option.splits)

lemma run_A_Inr:
  assumes "run_answerability_benchmark_A e site queries model calls = (Inr r, calls')"
  shows "\<exists>pages chunks t.
     crawl_site_A e site 15 50 = Inr pages \<and> index_pages pages = Some chunks \<and>
     query_loop e chunks model (queries_list_of queries) tally0 calls = (Inr t, calls') \<and>
     r = \<lparr>site_url = site, crawled_pages = length pages, indexed_chunks = length chunks,
          queries_run = length (queries_list_of queries),
          overall_scores = overall_of (queries_list_of queries) t,
          query_results = results t, missing_topics = missing t\<rparr>"
proof -
  obtain pages where p: "crawl_site_A e site 15 50 = Inr pages"
    using assms by (cases "crawl_site_A e site 15 50") (simp_all add: run_answerability_benchmark_A_def Let_def)
  obtain chunks where c: "index_pages pages = Some chunks"
    using assms p by (cases "index_pages pages") (simp_all add: run_answerability_benchmark_A_def Let_def)
  obtain res calls1 where q: "query_loop e chunks model (queries_list_of queries) tally0 calls = (res, calls1)"
    by (cases "query_loop e chunks model (queries_list_of queries) tally0 calls")
  obtain t where t: "res = Inr t"
    using assms p c q by (cases res) (simp_all add: run_answerability_benchmark_A_def Let_def)
  from assms p c q t show ?thesis
    by (simp add: run_answerability_benchmark_A_def Let_def)
qed

lemma index_pages_default: "\<exists>chunks. index_pages pages = Some chunks"
proof (induction pages)
  case Nil
  then show ?case by simp
next
  case (Cons p ps)
  from chunk_text_rebuild[of "page_text p"] obtain cs where "chunk_text (page_text p) 800 120 = Some cs"
    by blast
  with Cons show ?case by auto
qed

lemma sum_list_unit:
  "\<forall>x\<in>set xs. 0 \<le> f x \<and> f x \<le> (1::rat) \<Longrightarrow>
   0 \<le> sum_list (map f xs) \<and> sum_list (map f xs) \<le> of_nat (length xs)"
  by (induction xs) auto

lemma ratio_unit:
  "a \<le> n \<Longrightarrow> 0 < n \<Longrightarrow> 0 \<le> (of_nat a :: rat) / of_nat n \<and> (of_nat a :: rat) / of_nat n \<le> 1"
  by (simp add: divide_le_eq_1)

section \<open>Properties of the single-call aggregator\<close>

lemma record_result_B_fields:
  "results_B (record_result_B pages site q a found b t) = results_B t @ [row_B pages site q a found b]"
  "missing_B (record_result_B pages site q a found b t) = (if b then missing_B t else missing_B t @ [q])"
  "answered_count (record_result_B pages site q a found b t) = answered_count t + (if b then 1 else 0)"
  by (simp_all add: record_result_B_def row_B_def Let_def)

lemma row_B_fields:
  "query (row_B pages site q a found b) = q"
  "status (row_B pages site q a found b) = (if b then Answered else NotFound)"
  by (simp_all add: row_B_def)

lemma process_results_step:
  assumes "process_results qs pages site i (item # items) t = Inr t'"
  shows "\<exists>q a found b. process_results qs pages site (i + 1) items
            (record_result_B pages site q a found b t) = Inr t'"
proof (cases item)
  case (JObj kvs)
  let ?q = "dict_get kvs ''query''
              (JStr (if i < length qs then qs ! i else ''Question '' @ str_nat (i + 1)))"
  let ?a = "dict_get kvs ''answer'' (JStr ''NOT FOUND'')"
  let ?f = "dict_get kvs ''found'' (JBool False)"
  show ?thesis
  proof (cases "truthy ?f")
    case True
    with assms JObj obtain s where s: "?a = JStr s"
      by (cases ?a) (simp_all add: Let_def)
    with assms JObj True
    have "process_results qs pages site (i + 1) items
            (record_result_B pages site ?q ?a ?f (\<not> contains ''NOT FOUND'' (upper s)) t) = Inr t'"
      by (simp add: Let_def)
    then show ?thesis by blast
  next
    case False
    with assms JObj
    have "process_results qs pages site (i + 1) items
            (record_result_B pages site ?q ?a ?f False t) = Inr t'"
      by (simp add: Let_def)
    then show ?thesis by blast
  qed
qed (use assms in simp_all)

lemma process_results_rows:
  "process_results qs pages site i items t = Inr t' \<Longrightarrow>
   \<exists>rs. results_B t' = results_B t @ rs \<and> length rs = length items \<and>
     missing_B t' = missing_B t @ map query (filter (\<lambda>r. status r = NotFound) rs) \<and>
     answered_count t' = answered_count t + length (filter (\<lambda>r. status r = Answered) rs)"
proof (induction items arbitrary: i t)
  case Nil
  then show ?case by simp
next
  case (Cons item items)
  from process_results_step[OF Cons.prems] obtain q a found b where
    step: "process_results qs pages site (i + 1) items (record_result_B pages site q a found b t) = Inr t'"
    by blast
  let ?t1 = "record_result_B pages site q a found b t"
  let ?row = "row_B pages site q a found b"
  from Cons.IH[OF step] obtain rs where
    rs: "results_B t' = results_B ?t1 @ rs" "length rs = length items"
      "missing_B t' = missing_B ?t1 @ map query (filter (\<lambda>r. status r = NotFound) rs)"
      "answered_count t' = answered_count ?t1 + length (filter (\<lambda>r. status r = Answered) rs)"
    by blast
  show ?case
  proof (intro exI[of _ "?row # rs"] conjI)
    show "results_B t' = results_B t @ ?row # rs"
      using rs(1) by (simp add: record_result_B_fields)
    show "length (?row # rs) = length (item # items)"
      using rs(2) by simp
    show "missing_B t' = missing_B t @ map query (filter (\<lambda>r. status r = NotFound) (?row # rs))"
      using rs(3) by (simp add: record_result_B_fields row_B_fields)
    show "answered_count t' = answered_count t + length (filter (\<lambda>r. status r = Answered) (?row # rs))"
      using rs(4) by (simp add: record_result_B_fields row_B_fields)
  qed
qed

lemma run_B_empty:
  "crawl_site_B e site 10 50 = Inr [] \<Longrightarrow>
   run_answerability_benchmark_B e site queries model calls =
     (Inr (empty_report site (queries_list_of queries)), calls)"
  by (simp add: run_answerability_benchmark_B_def Let_def)

lemma run_B_no_key:
  "key_missing e \<Longrightarrow> crawl_site_B e site 10 50 = Inr pages \<Longrightarrow> pages \<noteq> [] \<Longrightarrow>
   run_answerability_benchmark_B e site queries model calls =
     (Inl (if netloc e site = None then ValueError else config_error), calls)"
  by (simp add: run_answerability_benchmark_B_def Let_def split: option.splits)

lemma run_B_Inr:
  assumes "run_answerability_benchmark_B e site queries model calls = (Inr r, calls')"
  shows "(crawl_site_B e site 10 50 = Inr [] \<and> r = empty_report site (queries_list_of queries) \<and>
          calls' = calls) \<or>
     (\<exists>pages items t. crawl_site_B e site 10 50 = Inr pages \<and> pages \<noteq> [] \<and> \<not> key_missing e \<and>
        process_results (queries_list_of queries) pages site 0 items
          \<lparr>results_B = [], answered_count = 0, missing_B = []\<rparr> = Inr t \<and>
        r = \<lparr>site_url = site, crawled_pages = length pages, indexed_chunks = length pages,
             queries_run = length (queries_list_of queries),
             overall_scores =
               \<lparr>answerability_rate =
                   round2 (of_nat (answered_count t) / of_nat (max 1 (length (queries_list_of queries)))),
                citation_coverage =
                   round2 (of_nat (answered_count t) / of_nat (max 1 (length (queries_list_of queries)))),
                hallucination_rate = 0,
                overall_completeness =
                   round2 (of_nat (answered_count t) / of_nat (max 1 (length (queries_list_of queries))))\<rparr>,
             query_results = results_B t, missing_topics = missing_B t\<rparr>)"
proof -
  let ?qs = "queries_list_of queries"
  obtain pages where p: "crawl_site_B e site 10 50 = Inr pages"
    using assms by (cases "crawl_site_B e site 10 50")
      (simp_all add: run_answerability_benchmark_B_def Let_def)
  show ?thesis
  proof (cases "pages = []")
    case True
    with assms p show ?thesis
      by (simp add: run_answerability_benchmark_B_def Let_def)
  next
    case False
    let ?c = "combine_pages pages []"
    let ?cc = "if 50000 < length ?c then take 50000 ?c @ newline @ ''...[content truncated]...'' else ?c"
    obtain domain where d: "netloc e site = Some domain"
      using assms p False by (cases "netloc e site")
        (simp_all add: run_answerability_benchmark_B_def Let_def)
    have k: "\<not> key_missing e"
      using assms p False d by (auto simp: run_answerability_benchmark_B_def Let_def)
    obtain parsed calls1 where a:
      "ask_all e model (prompt_of domain (numbered_questions ?qs) ?cc) ?qs calls = (parsed, calls1)"
      by (cases "ask_all e model (prompt_of domain (numbered_questions ?qs) ?cc) ?qs calls")
    obtain items where it: "json_iter parsed = Inr items"
      using assms p False d k a by (cases "json_iter parsed")
        (simp_all add: run_answerability_benchmark_B_def Let_def)
    obtain t where t: "process_results ?qs pages site 0 items
          \<lparr>results_B = [], answered_count = 0, missing_B = []\<rparr> = Inr t"
      using assms p False d k a it
      by (cases "process_results ?qs pages site 0 items \<lparr>results_B = [], answered_count = 0, missing_B = []\<rparr>")
        (simp_all add: run_answerability_benchmark_B_def Let_def)
    from assms p False d k a it t
    have "r = \<lparr>site_url = site, crawled_pages = length pages, indexed_chunks = length pages,
             queries_run = length ?qs,
             overall_scores =
               \<lparr>answerability_rate = round2 (of_nat (answered_count t) / of_nat (max 1 (length ?qs))),
                citation_coverage = round2 (of_nat (answered_count t) / of_nat (max 1 (length ?qs))),
                hallucination_rate = 0,
                overall_completeness = round2 (of_nat (answered_count t) / of_nat (max 1 (length ?qs)))\<rparr>,
             query_results = results_B t, missing_topics = missing_B t\<rparr>"
      by (simp add: run_answerability_benchmark_B_def Let_def)
    with p False k t show ?thesis by blast
  qed
qed

lemma process_results_fallback:
  "process_results qs pages site i
     (map (\<lambda>q. JObj [(''query'', JStr q), (''answer'', JStr msg), (''found'', JBool False)]) xs) t =
   Inr (foldl (\<lambda>t q. record_result_B pages site (JStr q) (JStr msg) (JBool False) False t) t xs)"
  by (induction xs arbitrary: i t) (simp_all add: dict_get_def truthy_def Let_def)

lemma fallback_rows:
  "results_B (foldl (\<lambda>t q. record_result_B pages site (JStr q) (JStr msg) (JBool False) False t) t xs) =
     results_B t @ map (\<lambda>q. row_B pages site (JStr q) (JStr msg) (JBool False) False) xs"
  by (induction xs arbitrary: t) (simp_all add: record_result_B_fields)

lemma ask_all_reply:
  "fst (ask_all e model prompt qs calls) =
     (case chat_completion e calls (request_B model prompt) of
        Inl msg \<Rightarrow> error_results qs (''Error: '' @ msg)
      | Inr content \<Rightarrow>
          (case json_loads e (strip_code_fence (strip content)) of
             None \<Rightarrow> error_results qs ''Error parsing response''
           | Some v \<Rightarrow> v))"
  by (simp add: ask_all_def request_B_def Let_def split: sum.splits option.splits)

lemma ask_all_None:
  "reply_B e calls (request_B model prompt) = None \<Longrightarrow>
   \<exists>msg. fst (ask_all e model prompt qs calls) = error_results qs msg"
  by (auto simp: ask_all_reply reply_B_def split: sum.splits option.splits)

lemma ask_all_Some:
  "reply_B e calls (request_B model prompt) = Some v \<Longrightarrow>
   fst (ask_all e model prompt qs calls) = v"
  by (auto simp: ask_all_reply reply_B_def split: sum.splits option.splits)

lemma run_B_items:
  assumes run: "run_answerability_benchmark_B e site queries model calls = (Inr r, calls')"
    and p: "crawl_site_B e site 10 50 = Inr pages" and ne: "pages \<noteq> []"
    and d: "netloc e site = Some domain"
  shows "\<exists>items t.
     json_iter (fst (ask_all e model (prompt_B domain (queries_list_of queries) pages)
                      (queries_list_of queries) calls)) = Inr items \<and>
     process_results (queries_list_of queries) pages site 0 items
       \<lparr>results_B = [], answered_count = 0, missing_B = []\<rparr> = Inr t \<and>
     query_results r = results_B t"
proof -
  let ?qs = "queries_list_of queries"
  let ?ask = "ask_all e model (prompt_B domain ?qs pages) ?qs calls"
  have k: "\<not> key_missing e"
    using run p ne d by (auto simp: run_answerability_benchmark_B_def Let_def)
  obtain parsed calls1 where a: "?ask = (parsed, calls1)" by (cases ?ask)
  obtain items where it: "json_iter parsed = Inr items"
    using run p ne d k a by (cases "json_iter parsed")
      (simp_all add: run_answerability_benchmark_B_def prompt_B_def Let_def)
  obtain t where t: "process_results ?qs pages site 0 items
        \<lparr>results_B = [], answered_count = 0, missing_B = []\<rparr> = Inr t"
    using run p ne d k a it
    by (cases "process_results ?qs pages site 0 items \<lparr>results_B = [], answered_count = 0, missing_B = []\<rparr>")
      (simp_all add: run_answerability_benchmark_B_def prompt_B_def Let_def)
  from run p ne d k a it t have "query_results r = results_B t"
    by (auto simp: run_answerability_benchmark_B_def prompt_B_def Let_def)
  with it t a show ?thesis by auto
qed

lemma run_B_rows:
  assumes run: "run_answerability_benchmark_B e site queries model calls = (Inr r, calls')"
    and p: "crawl_site_B e site 10 50 = Inr pages" and ne: "pages \<noteq> []"
    and d: "netloc e site = Some domain"
  shows "(reply_B e calls (request_B model (prompt_B domain (queries_list_of queries) pages)) = None \<longrightarrow>
            map query (query_results r) = map JStr (queries_list_of queries)) \<and>
         (\<forall>v. reply_B e calls (request_B model (prompt_B domain (queries_list_of queries) pages)) = Some v \<longrightarrow>
            (\<exists>items. json_iter v = Inr items \<and> length (query_results r) = length items))"
proof -
  let ?qs = "queries_list_of queries"
  let ?t0 = "\<lparr>results_B = [], answered_count = 0, missing_B = []\<rparr>"
  let ?reply = "reply_B e calls (request_B model (prompt_B domain ?qs pages))"
  from run_B_items[OF run p ne d] obtain items t where
    it: "json_iter (fst (ask_all e model (prompt_B domain ?qs pages) ?qs calls)) = Inr items"
    and pr: "process_results ?qs pages site 0 items ?t0 = Inr t"
    and qr: "query_results r = results_B t"
    by blast
  have none: "?reply = None \<longrightarrow> map query (query_results r) = map JStr ?qs"
  proof
    assume "?reply = None"
    from ask_all_None[OF this, of ?qs] obtain msg where
      "fst (ask_all e model (prompt_B domain ?qs pages) ?qs calls) = error_results ?qs msg" by blast
    with it have items: "items =
        map (\<lambda>q. JObj [(''query'', JStr q), (''answer'', JStr msg), (''found'', JBool False)]) ?qs"
      by (simp add: error_results_def json_iter_def)
    from pr have "t = foldl (\<lambda>t q. record_result_B pages site (JStr q) (JStr msg) (JBool False) False t) ?t0 ?qs"
      unfolding items process_results_fallback by simp
    then have "results_B t = map (\<lambda>q. row_B pages site (JStr q) (JStr msg) (JBool False) False) ?qs"
      by (simp add: fallback_rows)
    then show "map query (query_results r) = map JStr ?qs"
      unfolding qr by (simp add: comp_def row_B_fields)
  qed
  have some: "\<forall>v. ?reply = Some v \<longrightarrow>
      (\<exists>items. json_iter v = Inr items \<and> length (query_results r) = length items)"
  proof (intro allI impI)
    fix v
    assume "?reply = Some v"
    from ask_all_Some[OF this, of ?qs] it have iv: "json_iter v = Inr items" by simp
    from process_results_rows[OF pr] obtain rs where
      "results_B t = results_B ?t0 @ rs" "length rs = length items" by blast
    then have "length (results_B t) = length items" by simp
    with iv qr show "\<exists>items. json_iter v = Inr items \<and> length (query_results r) = length items"
      by simp
  qed
  from none some show ?thesis ..
qed

section \<open>Runs without grounding or without credential\<close>

lemma run_A_closed:
  assumes p: "crawl_site_A e site 15 50 = Inr pages" and c: "index_pages pages = Some chunks"
    and g: "\<forall>q\<in>set (queries_list_of queries). gate_closed q chunks"
  shows "run_answerability_benchmark_A e site queries model calls =
     (Inr (placeholder_report site (queries_list_of queries) (length pages) (length chunks)), calls)"
proof -
  let ?qs = "queries_list_of queries"
  have ne: "?qs \<noteq> []" by (rule queries_list_nonempty)
  then have mx: "max 1 (length ?qs) = length ?qs" by (cases ?qs) simp_all
  have q: "query_loop e chunks model ?qs tally0 calls = (Inr (placeholder_tally tally0 ?qs), calls)"
    by (rule query_loop_closed[OF g])
  have ov: "overall_of ?qs (placeholder_tally tally0 ?qs) =
        \<lparr>answerability_rate = 0, citation_coverage = 0, hallucination_rate = 0,
         overall_completeness =
           round2 (sum_list (map (\<lambda>q. completeness_score q ''NOT FOUND'') ?qs) / of_nat (length ?qs))\<rparr>"
    unfolding overall_of_def Let_def mx placeholder_tally_fields
    using ne by (simp add: tally0_def round2_zero)
  have rs: "results (placeholder_tally tally0 ?qs) = map (\<lambda>q. result_row q ''NOT FOUND'' [] False) ?qs"
    and ms: "missing (placeholder_tally tally0 ?qs) = ?qs"
    by (simp_all add: placeholder_tally_fields tally0_def)
  show ?thesis
    by (simp add: run_answerability_benchmark_A_def Let_def p c q placeholder_report_def ov rs ms)
qed

lemma run_A_no_key:
  assumes k: "key_missing e"
    and p: "crawl_site_A e site 15 50 = Inr pages" and c: "index_pages pages = Some chunks"
  shows "run_answerability_benchmark_A e site queries model calls =
     (if \<forall>q\<in>set (queries_list_of queries). gate_closed q chunks
      then (Inr (placeholder_report site (queries_list_of queries) (length pages) (length chunks)), calls)
      else (Inl config_error, calls))"
proof (cases "\<forall>q\<in>set (queries_list_of queries). gate_closed q chunks")
  case True
  with run_A_closed[OF p c True] show ?thesis by simp
next
  case False
  then have "query_loop e chunks model (queries_list_of queries) tally0 calls = (Inl config_error, calls)"
    using query_loop_no_key[OF k, of chunks model "queries_list_of queries" tally0 calls] by simp
  with False show ?thesis
    by (simp add: run_answerability_benchmark_A_def Let_def p c)
qed

lemma run_A_calls_no_key:
  assumes k: "key_missing e"
  shows "snd (run_answerability_benchmark_A e site queries model calls) = calls"
proof (cases "crawl_site_A e site 15 50")
  case (Inl err)
  then show ?thesis by (simp add: run_answerability_benchmark_A_def Let_def)
next
  case (Inr pages)
  from index_pages_default[of pages] obtain chunks where c: "index_pages pages = Some chunks" by blast
  show ?thesis unfolding run_A_no_key[OF k Inr c] by simp
qed

lemma run_B_calls_no_key:
  assumes k: "key_missing e"
  shows "snd (run_answerability_benchmark_B e site queries model calls) = calls"
proof (cases "crawl_site_B e site 10 50")
  case (Inl err)
  then show ?thesis by (simp add: run_answerability_benchmark_B_def Let_def)
next
  case (Inr pages)
  show ?thesis
  proof (cases "pages = []")
    case True
    with Inr show ?thesis by (simp add: run_B_empty)
  next
    case False
    from run_B_no_key[OF k Inr False] show ?thesis by simp
  qed
qed

lemma offline_crawl_A: "crawl_site_A offline_env u 15 50 = Inr []"
  by (simp add: crawl_site_A_def returned_pages_def offline_env_def)

lemma offline_crawl_B: "crawl_site_B offline_env u 10 50 = Inr []"
  by (simp add: crawl_site_B_def returned_pages_def priority_queue_def offline_env_def Let_def
      priority_paths_def)

lemma offline_key: "key_missing offline_env"
  by (simp add: key_missing_def offline_env_def)

lemma keyless_key: "key_missing keyless_env"
  by (simp add: key_missing_def keyless_env_def)

lemma placeholder_report_rows:
  "crawled_pages (placeholder_report site qs n m) = n"
  "indexed_chunks (placeholder_report site qs n m) = m"
  "queries_run (placeholder_report site qs n m) = length qs"
  "answerability_rate (overall_scores (placeholder_report site qs n m)) = 0"
  "citation_coverage (overall_scores (placeholder_report site qs n m)) = 0"
  "hallucination_rate (overall_scores (placeholder_report site qs n m)) = 0"
  "map query (query_results (placeholder_report site qs n m)) = qs"
  "missing_topics (placeholder_report site qs n m) = qs"
  "\<forall>r\<in>set (query_results (placeholder_report site qs n m)).
      status r = NotFound \<and> answer r = ''NOT FOUND'' \<and> citations r = []"
  by (simp_all add: placeholder_report_def result_row_fields comp_def)





text \<open>
  Claim C3, as amended.  The credential is looked up only where the completion service is
  about to be called.  When it is absent: in \<open>backend/benchmark.py\<close> a crawl with at least one
  page ends the run with the configuration error before any result is built (unless the URL
  library rejects the site URL first), while a crawl without pages returns the empty-crawl
  report; in \<open>ai_tool_anayze/backend/benchmark.py\<close> the run ends with the configuration error
  when some question passes the relevance gate, and otherwise returns the report in which
  every answer is \<open>NOT FOUND\<close>.  In no case is the completion service called, and no report
  that is returned carries the missing credential as a degraded result.
\<close>

theorem missing_key_outcome:
  assumes k: "key_missing e"
  shows
   "(crawl_site_B e site 10 50 = Inr pages \<and> pages \<noteq> [] \<and> netloc e site \<noteq> None \<longrightarrow>
       run_answerability_benchmark_B e site queries model calls = (Inl config_error, calls)) \<and>
    (crawl_site_B e site 10 50 = Inr [] \<longrightarrow>
       run_answerability_benchmark_B e site queries model calls =
         (Inr (empty_report site (queries_list_of queries)), calls)) \<and>
    (crawl_site_A e site 15 50 = Inr pages' \<and> index_pages pages' = Some chunks \<longrightarrow>
       run_answerability_benchmark_A e site queries model calls =
         (if \<forall>q\<in>set (queries_list_of queries). gate_closed q chunks
          then (Inr (placeholder_report site (queries_list_of queries) (length pages')
                       (length chunks)), calls)
          else (Inl config_error, calls))) \<and>
    snd (run_answerability_benchmark_A e site queries model calls) = calls \<and>
    snd (run_answerability_benchmark_B e site queries model calls) = calls \<and>
    (\<forall>r c. run_answerability_benchmark_B e site queries model calls = (Inr r, c) \<longrightarrow>
       r = empty_report site (queries_list_of queries)) \<and>
    (\<forall>r c. run_answerability_benchmark_A e site queries model calls = (Inr r, c) \<longrightarrow>
       (\<forall>x\<in>set (query_results r). answer x = ''NOT FOUND'' \<and> status x = NotFound))"
proof -
  have b1: "crawl_site_B e site 10 50 = Inr pages \<and> pages \<noteq> [] \<and> netloc e site \<noteq> None \<longrightarrow>
       run_answerability_benchmark_B e site queries model calls = (Inl config_error, calls)"
    using run_B_no_key[OF k, of site pages queries model calls] by auto
  have b2: "crawl_site_B e site 10 50 = Inr [] \<longrightarrow>
       run_answerability_benchmark_B e site queries model calls =
         (Inr (empty_report site (queries_list_of queries)), calls)"
    using run_B_empty by blast
  have a1: "crawl_site_A e site 15 50 = Inr pages' \<and> index_pages pages' = Some chunks \<longrightarrow>
       run_answerability_benchmark_A e site queries model calls =
         (if \<forall>q\<in>set (queries_list_of queries). gate_closed q chunks
          then (Inr (placeholder_report site (queries_list_of queries) (length pages')
                       (length chunks)), calls)
          else (Inl config_error, calls))"
    using run_A_no_key[OF k] by blast
  have b3: "\<forall>r c. run_answerability_benchmark_B e site queries model calls = (Inr r, c) \<longrightarrow>
       r = empty_report site (queries_list_of queries)"
    using run_B_Inr[of e site queries model calls] k by blast
  have a3: "\<forall>r c. run_answerability_benchmark_A e site queries model calls = (Inr r, c) \<longrightarrow>
       (\<forall>x\<in>set (query_results r). answer x = ''NOT FOUND'' \<and> status x = NotFound)"
  proof (intro allI impI)
    fix r c
    assume run: "run_answerability_benchmark_A e site queries model calls = (Inr r, c)"
    from run_A_Inr[OF run] obtain pages0 chunks0 where
      p: "crawl_site_A e site 15 50 = Inr pages0" and c: "index_pages pages0 = Some chunks0"
      by blast
    from run run_A_no_key[OF k p c, of queries model calls]
    have "r = placeholder_report site (queries_list_of queries) (length pages0) (length chunks0)"
      by (simp split: if_splits)
    then show "\<forall>x\<in>set (query_results r). answer x = ''NOT FOUND'' \<and> status x = NotFound"
      using placeholder_report_rows(9)[of site "queries_list_of queries" "length pages0" "length chunks0"]
      by simp
  qed
  from b1 b2 a1 b3 a3 run_A_calls_no_key[OF k, of site queries model calls]
    run_B_calls_no_key[OF k, of site queries model calls]
  show ?thesis by (intro conjI) assumption+
qed

lemma shop_crawl_A:
  "crawl_site_A (shop_env\<lparr>api_key := None\<rparr>) ''http://shop.example'' 15 50 =
     Inr [\<lparr>url = ''http://shop.example'', title = ''Shop'', page_text = shop_body\<rparr>]"
  by code_simp

lemma shop_crawl_B:
  "crawl_site_B (shop_env\<lparr>api_key := None\<rparr>) ''http://shop.example'' 10 50 =
     Inr [\<lparr>url = ''http://shop.example'', title = ''Shop'', page_text = shop_body\<rparr>]"
  by code_simp

theorem missing_key_outcome_witness:
  "key_missing keyless_env \<and>
   crawl_site_B keyless_env ''http://shop.example'' 10 50 =
     Inr [\<lparr>url = ''http://shop.example'', title = ''Shop'', page_text = shop_body\<rparr>] \<and>
   netloc keyless_env ''http://shop.example'' \<noteq> None \<and>
   run_answerability_benchmark_B keyless_env ''http://shop.example''
      (Some [''What services do you offer?'']) ''gpt-4o-mini'' [] = (Inl config_error, []) \<and>
   snd (run_answerability_benchmark_A keyless_env ''http://shop.example''
      (Some [''What services do you offer?'']) ''gpt-4o-mini'' []) = []"
proof -
  have n: "netloc keyless_env ''http://shop.example'' \<noteq> None"
    by code_simp
  have c: "crawl_site_B keyless_env ''http://shop.example'' 10 50 =
     Inr [\<lparr>url = ''http://shop.example'', title = ''Shop'', page_text = shop_body\<rparr>]"
    unfolding keyless_env_def by (rule shop_crawl_B)
  from missing_key_outcome[OF keyless_key, of "''http://shop.example''"
      "[\<lparr>url = ''http://shop.example'', title = ''Shop'', page_text = shop_body\<rparr>]"
      "Some [''What services do you offer?'']" "''gpt-4o-mini''" "[]"] n c keyless_key
  show ?thesis by simp
qed

theorem missing_key_counterexample:
  "key_missing offline_env \<and> key_missing keyless_env \<and>
   run_answerability_benchmark_B offline_env ''http://shop.example''
      (Some [''What is your pricing?'']) ''gpt-4o-mini'' [] =
     (Inr (empty_report ''http://shop.example'' [''What is your pricing?'']), []) \<and>
   run_answerability_benchmark_A keyless_env ''http://shop.example''
      (Some [''Where are you located?'']) ''gpt-4o-mini'' [] =
     (Inr \<lparr>site_url = ''http://shop.example'', crawled_pages = 1, indexed_chunks = 1,
           queries_run = 1,
           overall_scores = \<lparr>answerability_rate = 0, citation_coverage = 0,
                              hallucination_rate = 0, overall_completeness = 0\<rparr>,
           query_results =
             [\<lparr>query = ''Where are you located?'', answer = ''NOT FOUND'', status = NotFound,
               citations = [],
               metrics = \<lparr>answerable = False, citation_ok = False, hallucination = False,
                          completeness = 0\<rparr>\<rparr>],
           missing_topics = [''Where are you located?'']\<rparr>, [])"
proof -
  have b: "run_answerability_benchmark_B offline_env ''http://shop.example''
      (Some [''What is your pricing?'']) ''gpt-4o-mini'' [] =
     (Inr (empty_report ''http://shop.example'' [''What is your pricing?'']), [])"
    by (simp add: run_B_empty offline_crawl_B queries_list_of_def)
  have a: "run_answerability_benchmark_A keyless_env ''http://shop.example''
      (Some [''Where are you located?'']) ''gpt-4o-mini'' [] =
     (Inr \<lparr>site_url = ''http://shop.example'', crawled_pages = 1, indexed_chunks = 1,
           queries_run = 1,
           overall_scores = \<lparr>answerability_rate = 0, citation_coverage = 0,
                              hallucination_rate = 0, overall_completeness = 0\<rparr>,
           query_results =
             [\<lparr>query = ''Where are you located?'', answer = ''NOT FOUND'', status = NotFound,
               citations = [],
               metrics = \<lparr>answerable = False, citation_ok = False, hallucination = False,
                          completeness = 0\<rparr>\<rparr>],
           missing_topics = [''Where are you located?'']\<rparr>, [])"
    by code_simp
  from a b offline_key keyless_key show ?thesis by blast
qed

text \<open>
  Claim C10, as amended.  In the per-question aggregator the completeness of a result is
  computed from the answer text also when that text is the placeholder \<open>NOT FOUND\<close>: for a
  question that stops at the relevance gate and has \<open>not\<close> or \<open>found\<close> among its tokens, the
  completeness before rounding is above 0, the reported value is that number rounded to two
  decimals, and the reported value is above 0 when the question has fewer than 200 distinct
  tokens.
\<close>

theorem placeholder_completeness:
  assumes run: "run_answerability_benchmark_A e site queries model calls = (Inr r, calls')"
    and p: "crawl_site_A e site 15 50 = Inr pages"
    and c: "index_pages pages = Some chunks"
    and x: "x \<in> set (query_results r)"
    and g: "gate_closed (query x) chunks"
    and tok: "''not'' \<in> set (tokenize (query x)) \<or> ''found'' \<in> set (tokenize (query x))"
  shows "map query (query_results r) = queries_list_of queries \<and>
    answer x = ''NOT FOUND'' \<and> status x = NotFound \<and>
    completeness (metrics x) = round2 (completeness_score (query x) ''NOT FOUND'') \<and>
    0 < completeness_score (query x) ''NOT FOUND'' \<and>
    (card (set (tokenize (query x))) < 200 \<longrightarrow> 0 < completeness (metrics x))"
proof -
  from run_A_Inr[OF run] obtain pages0 chunks0 t where
    p0: "crawl_site_A e site 15 50 = Inr pages0" and c0: "index_pages pages0 = Some chunks0"
    and ql: "query_loop e chunks0 model (queries_list_of queries) tally0 calls = (Inr t, calls')"
    and r: "query_results r = results t"
    by auto
  from p p0 c c0 have ch: "chunks0 = chunks" by simp
  from query_loop_rows[OF ql] obtain rs where
    rs: "results t = results tally0 @ rs" "map query rs = queries_list_of queries"
      "\<forall>r\<in>set rs. row_ok r \<and>
         (gate_closed (query r) chunks0 \<longrightarrow> answer r = ''NOT FOUND'' \<and> status r = NotFound
            \<and> citations r = [])"
    by blast
  from rs(1) r have qr: "query_results r = rs" by (simp add: tally0_def)
  with x rs(3) g ch have ok: "row_ok x" and a: "answer x = ''NOT FOUND''" and s: "status x = NotFound"
    by auto
  from ok a have cm: "completeness (metrics x) = round2 (completeness_score (query x) ''NOT FOUND'')"
    by (simp add: row_ok_def)
  from completeness_placeholder[OF tok]
  have lo: "1 / of_nat (card (set (tokenize (query x)))) \<le> completeness_score (query x) ''NOT FOUND''"
    and pos: "0 < completeness_score (query x) ''NOT FOUND''" by simp_all
  have small: "card (set (tokenize (query x))) < 200 \<longrightarrow> 0 < completeness (metrics x)"
  proof
    assume lt: "card (set (tokenize (query x))) < 200"
    from tok have "set (tokenize (query x)) \<noteq> {}" by auto
    then have c0: "0 < card (set (tokenize (query x)))" by (simp add: card_gt_0_iff)
    then have "(0::rat) < of_nat (card (set (tokenize (query x))))" by simp
    moreover from lt have "(of_nat (card (set (tokenize (query x)))) :: rat) < 200" by simp
    ultimately have "(1::rat) / 200 < 1 / of_nat (card (set (tokenize (query x))))"
      by (simp add: frac_less2)
    with lo have "1 / 200 < completeness_score (query x) ''NOT FOUND''" by simp
    then show "0 < completeness (metrics x)" unfolding cm by (rule round2_pos)
  qed
  from qr rs(2) a s cm pos small show ?thesis by simp
qed

lemma offline_run_A:
  "q \<noteq> [] \<Longrightarrow> run_answerability_benchmark_A offline_env site (Some q) model calls =
     (Inr (placeholder_report site q 0 0), calls)"
proof -
  assume q: "q \<noteq> []"
  have c: "index_pages [] = Some []" by simp
  have g: "\<forall>x\<in>set (queries_list_of (Some q)). gate_closed x []"
    using gate_closed_empty by blast
  from run_A_closed[OF offline_crawl_A c g, of site model calls] q show ?thesis
    by (simp add: queries_list_of_def)
qed

theorem placeholder_completeness_witness:
  "run_answerability_benchmark_A offline_env ''http://shop.example'' (Some [''Why not?''])
      ''gpt-4o-mini'' [] = (Inr (placeholder_report ''http://shop.example'' [''Why not?''] 0 0), []) \<and>
   gate_closed ''Why not?'' [] \<and>
   ''not'' \<in> set (tokenize ''Why not?'') \<and>
   card (set (tokenize ''Why not?'')) < 200 \<and>
   0 < completeness (metrics (result_row ''Why not?'' ''NOT FOUND'' [] False))"
proof -
  let ?x = "result_row ''Why not?'' ''NOT FOUND'' [] False"
  have run: "run_answerability_benchmark_A offline_env ''http://shop.example'' (Some [''Why not?''])
      ''gpt-4o-mini'' [] = (Inr (placeholder_report ''http://shop.example'' [''Why not?''] 0 0), [])"
    by (rule offline_run_A) simp
  have c: "index_pages [] = Some []" by simp
  have x: "?x \<in> set (query_results (placeholder_report ''http://shop.example'' [''Why not?''] 0 0))"
    by (simp add: placeholder_report_def)
  have q: "query ?x = ''Why not?''" by (simp add: result_row_fields)
  have g: "gate_closed (query ?x) []" unfolding q by (rule gate_closed_empty)
  have t: "''not'' \<in> set (tokenize ''Why not?'')" by code_simp
  have k: "card (set (tokenize ''Why not?'')) < 200" by code_simp
  from t have tok: "''not'' \<in> set (tokenize (query ?x)) \<or> ''found'' \<in> set (tokenize (query ?x))"
    unfolding q by simp
  from placeholder_completeness[OF run offline_crawl_A c x g tok] k
  have "0 < completeness (metrics ?x)" unfolding q by simp
  with run g t k show ?thesis unfolding q by simp
qed

lemma lq: "completeness_score long_question ''NOT FOUND'' = 1 / 201"
  by code_simp

lemma lq_not: "''not'' \<in> set (tokenize long_question)"
  by code_simp

theorem placeholder_completeness_counterexample:
  "''not'' \<in> set (tokenize long_question) \<and>
   gate_closed long_question [] \<and>
   run_answerability_benchmark_A offline_env ''http://shop.example'' (Some [long_question])
      ''gpt-4o-mini'' [] =
     (Inr \<lparr>site_url = ''http://shop.example'', crawled_pages = 0, indexed_chunks = 0,
           queries_run = 1,
           overall_scores = \<lparr>answerability_rate = 0, citation_coverage = 0,
                              hallucination_rate = 0, overall_completeness = 0\<rparr>,
           query_results =
             [\<lparr>query = long_question, answer = ''NOT FOUND'', status = NotFound, citations = [],
               metrics = \<lparr>answerable = False, citation_ok = False, hallucination = False,
                          completeness = 0\<rparr>\<rparr>],
           missing_topics = [long_question]\<rparr>, [])"
proof -
  have r0: "round2 (1 / 201) = 0" by code_simp
  have run: "run_answerability_benchmark_A offline_env ''http://shop.example'' (Some [long_question])
      ''gpt-4o-mini'' [] = (Inr (placeholder_report ''http://shop.example'' [long_question] 0 0), [])"
    by (rule offline_run_A) simp
  have "placeholder_report ''http://shop.example'' [long_question] 0 0 =
      \<lparr>site_url = ''http://shop.example'', crawled_pages = 0, indexed_chunks = 0,
           queries_run = 1,
           overall_scores = \<lparr>answerability_rate = 0, citation_coverage = 0,
                              hallucination_rate = 0, overall_completeness = 0\<rparr>,
           query_results =
             [\<lparr>query = long_question, answer = ''NOT FOUND'', status = NotFound, citations = [],
               metrics = \<lparr>answerable = False, citation_ok = False, hallucination = False,
                          completeness = 0\<rparr>\<rparr>],
           missing_topics = [long_question]\<rparr>"
    by (simp add: placeholder_report_def result_row_def lq r0)
  with run lq_not gate_closed_empty[of long_question] show ?thesis by simp
qed

section \<open>Invariants of the reports\<close>

lemma count_le_total:
  "length (filter P rs) \<le> max 1 (length rs) \<and> 0 < max 1 (length rs)"
  by (simp add: le_max_iff_disj)

lemma run_A_rates:
  assumes ql: "query_loop e chunks model qs tally0 calls = (Inr t, calls')" and ne: "qs \<noteq> []"
  shows "0 \<le> answerability_rate (overall_of qs t) \<and> answerability_rate (overall_of qs t) \<le> 1 \<and>
         0 \<le> citation_coverage (overall_of qs t) \<and> citation_coverage (overall_of qs t) \<le> 1 \<and>
         0 \<le> hallucination_rate (overall_of qs t) \<and> hallucination_rate (overall_of qs t) \<le> 1 \<and>
         0 \<le> overall_completeness (overall_of qs t) \<and> overall_completeness (overall_of qs t) \<le> 1"
proof -
  from query_loop_rows[OF ql] obtain rs where
    rs0: "results t = results tally0 @ rs" and
    rs: "map query rs = qs"
      "answerable_count t = answerable_count tally0 + length (filter (\<lambda>r. status r = Answered) rs)"
      "citation_ok_count t =
         citation_ok_count tally0 + length (filter (\<lambda>r. status r = Answered \<and> citations r \<noteq> []) rs)"
      "hallucinations t = hallucinations tally0"
      "completeness_scores t =
         completeness_scores tally0 @ map (\<lambda>r. completeness_score (query r) (answer r)) rs"
    and rs1: "\<forall>r\<in>set rs. row_ok r \<and>
        (gate_closed (query r) chunks \<longrightarrow> answer r = ''NOT FOUND'' \<and> status r = NotFound
           \<and> citations r = [])"
    and rs2: "missing t = missing tally0 @ map query (filter (\<lambda>r. status r = NotFound) rs)"
    by blast
  from rs(1) have len: "length rs = length qs" by (metis length_map)
  from ne have mx: "max 1 (length qs) = length qs" by (cases qs) simp_all
  from ne have pos: "0 < length qs" by simp
  have a: "answerable_count t \<le> length qs"
    using rs(2) len by (simp add: tally0_def) (metis length_filter_le)
  have ci: "citation_ok_count t \<le> length qs"
    using rs(3) len by (simp add: tally0_def) (metis length_filter_le)
  have h: "hallucinations t = 0"
    using rs(4) by (simp add: tally0_def)
  have cs: "completeness_scores t = map (\<lambda>r. completeness_score (query r) (answer r)) rs"
    using rs(5) by (simp add: tally0_def)
  have "\<forall>r\<in>set rs. 0 \<le> completeness_score (query r) (answer r) \<and>
          completeness_score (query r) (answer r) \<le> 1"
    using completeness_score_bounds by blast
  from sum_list_unit[OF this] have sm: "0 \<le> sum_list (completeness_scores t)"
    "sum_list (completeness_scores t) \<le> of_nat (length qs)"
    unfolding cs len by simp_all
  from pos have rpos: "(0::rat) < of_nat (length qs)" by simp
  from sm rpos have mean: "0 \<le> sum_list (completeness_scores t) / of_nat (length qs)"
    "sum_list (completeness_scores t) / of_nat (length qs) \<le> 1"
    by (simp_all add: divide_le_eq_1)
  note ra = ratio_unit[OF a pos] and rc = ratio_unit[OF ci pos]
  have 1: "0 \<le> answerability_rate (overall_of qs t) \<and> answerability_rate (overall_of qs t) \<le> 1"
    unfolding overall_of_def Let_def mx using ra by (simp add: round2_nonneg round2_le_one)
  have 2: "0 \<le> citation_coverage (overall_of qs t) \<and> citation_coverage (overall_of qs t) \<le> 1"
    unfolding overall_of_def Let_def mx using rc by (simp add: round2_nonneg round2_le_one)
  have 3: "0 \<le> hallucination_rate (overall_of qs t) \<and> hallucination_rate (overall_of qs t) \<le> 1"
    unfolding overall_of_def Let_def mx h by (simp add: round2_zero)
  have 4: "0 \<le> overall_completeness (overall_of qs t) \<and> overall_completeness (overall_of qs t) \<le> 1"
    unfolding overall_of_def Let_def mx using mean by (simp add: round2_nonneg round2_le_one)
  from 1 2 3 4 show ?thesis by blast
qed

text \<open>
  Claim C4, as amended.  A report returned by \<open>ai_tool_anayze/backend/benchmark.py\<close> has one
  result for each question the run is on, in order; \<open>missing_topics\<close> lists the questions of
  the results with status \<open>NotFound\<close>, in order; \<open>queries_run\<close> is the number of results and
  of questions; and the four overall rates lie between 0 and 1.  A report returned by
  \<open>backend/benchmark.py\<close> has \<open>queries_run\<close> equal to the number of questions, and
  \<open>missing_topics\<close> lists the \<open>query\<close> fields of the results with status \<open>NotFound\<close>, in
  order; its rates are at least 0, the hallucination rate is 0, and the rates are at most 1
  when there are no more results than questions.  Its results are built from the questions,
  one for each in order, when the crawl yields no page and when the completion call raises
  or its reply is not JSON; otherwise the reply has been parsed, it can be iterated, and
  there is one result for each of its items, however many questions were asked.
\<close>

theorem report_invariants:
  "(run_answerability_benchmark_A e site queries model calls = (Inr r, calls') \<longrightarrow>
      map query (query_results r) = queries_list_of queries \<and>
      missing_topics r = map query (filter (\<lambda>x. status x = NotFound) (query_results r)) \<and>
      queries_run r = length (query_results r) \<and>
      queries_run r = length (queries_list_of queries) \<and>
      0 \<le> answerability_rate (overall_scores r) \<and> answerability_rate (overall_scores r) \<le> 1 \<and>
      0 \<le> citation_coverage (overall_scores r) \<and> citation_coverage (overall_scores r) \<le> 1 \<and>
      0 \<le> hallucination_rate (overall_scores r) \<and> hallucination_rate (overall_scores r) \<le> 1 \<and>
      0 \<le> overall_completeness (overall_scores r) \<and> overall_completeness (overall_scores r) \<le> 1) \<and>
   (run_answerability_benchmark_B e site queries model calls = (Inr rb, callsb) \<longrightarrow>
      queries_run rb = length (queries_list_of queries) \<and>
      missing_topics rb = map query (filter (\<lambda>x. status x = NotFound) (query_results rb)) \<and>
      hallucination_rate (overall_scores rb) = 0 \<and>
      0 \<le> answerability_rate (overall_scores rb) \<and>
      0 \<le> citation_coverage (overall_scores rb) \<and>
      0 \<le> overall_completeness (overall_scores rb) \<and>
      (length (query_results rb) \<le> queries_run rb \<longrightarrow>
         answerability_rate (overall_scores rb) \<le> 1 \<and>
         citation_coverage (overall_scores rb) \<le> 1 \<and>
         overall_completeness (overall_scores rb) \<le> 1) \<and>
      (crawl_site_B e site 10 50 = Inr [] \<longrightarrow>
         map query (query_results rb) = map JStr (queries_list_of queries)) \<and>
      (\<forall>pages domain.
         crawl_site_B e site 10 50 = Inr pages \<and> pages \<noteq> [] \<and> netloc e site = Some domain \<longrightarrow>
         (reply_B e calls (request_B model (prompt_B domain (queries_list_of queries) pages)) = None \<longrightarrow>
            map query (query_results rb) = map JStr (queries_list_of queries)) \<and>
         (\<forall>v. reply_B e calls (request_B model (prompt_B domain (queries_list_of queries) pages)) = Some v \<longrightarrow>
            (\<exists>items. json_iter v = Inr items \<and> length (query_results rb) = length items))))"
proof (intro conjI impI)
  let ?qs = "queries_list_of queries"
  have ne: "?qs \<noteq> []" by (rule queries_list_nonempty)
  {
    assume run: "run_answerability_benchmark_A e site queries model calls = (Inr r, calls')"
    from run_A_Inr[OF run] obtain pages chunks t where
      "crawl_site_A e site 15 50 = Inr pages" "index_pages pages = Some chunks" and
      ql: "query_loop e chunks model ?qs tally0 calls = (Inr t, calls')"
      and r: "r = \<lparr>site_url = site, crawled_pages = length pages, indexed_chunks = length chunks,
          queries_run = length ?qs, overall_scores = overall_of ?qs t,
          query_results = results t, missing_topics = missing t\<rparr>"
      by blast
    from query_loop_rows[OF ql] obtain rs where
      rs: "results t = results tally0 @ rs" "map query rs = ?qs"
        "missing t = missing tally0 @ map query (filter (\<lambda>r. status r = NotFound) rs)"
      and "\<forall>r\<in>set rs. row_ok r \<and>
        (gate_closed (query r) chunks \<longrightarrow> answer r = ''NOT FOUND'' \<and> status r = NotFound
           \<and> citations r = [])"
      and "answerable_count t = answerable_count tally0 + length (filter (\<lambda>r. status r = Answered) rs)"
      and "citation_ok_count t =
         citation_ok_count tally0 + length (filter (\<lambda>r. status r = Answered \<and> citations r \<noteq> []) rs)"
      and "hallucinations t = hallucinations tally0"
      and "completeness_scores t =
         completeness_scores tally0 @ map (\<lambda>r. completeness_score (query r) (answer r)) rs"
      by blast
    from rs(1) have res: "results t = rs" by (simp add: tally0_def)
    from rs(3) have mis: "missing t = map query (filter (\<lambda>r. status r = NotFound) rs)"
      by (simp add: tally0_def)
    from rs(2) have len: "length rs = length ?qs" by (metis length_map)
    note rates = run_A_rates[OF ql ne]
    show "map query (query_results r) = ?qs" using r res rs(2) by simp
    show "missing_topics r = map query (filter (\<lambda>x. status x = NotFound) (query_results r))"
      using r res mis by simp
    show "queries_run r = length (query_results r)" using r res len by simp
    show "queries_run r = length ?qs" using r by simp
    show "0 \<le> answerability_rate (overall_scores r)" using r rates by simp
    show "answerability_rate (overall_scores r) \<le> 1" using r rates by simp
    show "0 \<le> citation_coverage (overall_scores r)" using r rates by simp
    show "citation_coverage (overall_scores r) \<le> 1" using r rates by simp
    show "0 \<le> hallucination_rate (overall_scores r)" using r rates by simp
    show "hallucination_rate (overall_scores r) \<le> 1" using r rates by simp
    show "0 \<le> overall_completeness (overall_scores r)" using r rates by simp
    show "overall_completeness (overall_scores r) \<le> 1" using r rates by simp
  }
  {
    assume run: "run_answerability_benchmark_B e site queries model calls = (Inr rb, callsb)"
    have B: "queries_run rb = length ?qs \<and>
      missing_topics rb = map query (filter (\<lambda>x. status x = NotFound) (query_results rb)) \<and>
      hallucination_rate (overall_scores rb) = 0 \<and>
      0 \<le> answerability_rate (overall_scores rb) \<and>
      0 \<le> citation_coverage (overall_scores rb) \<and>
      0 \<le> overall_completeness (overall_scores rb) \<and>
      (length (query_results rb) \<le> queries_run rb \<longrightarrow>
         answerability_rate (overall_scores rb) \<le> 1 \<and>
         citation_coverage (overall_scores rb) \<le> 1 \<and>
         overall_completeness (overall_scores rb) \<le> 1)"
      using run_B_Inr[OF run]
    proof
      assume "crawl_site_B e site 10 50 = Inr [] \<and> rb = empty_report site ?qs \<and> callsb = calls"
      then have rb: "rb = empty_report site ?qs" by simp
      show ?thesis unfolding rb by (simp add: empty_report_def comp_def)
    next
      assume "\<exists>pages items t. crawl_site_B e site 10 50 = Inr pages \<and> pages \<noteq> [] \<and> \<not> key_missing e \<and>
        process_results ?qs pages site 0 items
          \<lparr>results_B = [], answered_count = 0, missing_B = []\<rparr> = Inr t \<and>
        rb = \<lparr>site_url = site, crawled_pages = length pages, indexed_chunks = length pages,
             queries_run = length ?qs,
             overall_scores =
               \<lparr>answerability_rate = round2 (of_nat (answered_count t) / of_nat (max 1 (length ?qs))),
                citation_coverage = round2 (of_nat (answered_count t) / of_nat (max 1 (length ?qs))),
                hallucination_rate = 0,
                overall_completeness = round2 (of_nat (answered_count t) / of_nat (max 1 (length ?qs)))\<rparr>,
             query_results = results_B t, missing_topics = missing_B t\<rparr>"
      then obtain pages items t where
        pr: "process_results ?qs pages site 0 items
          \<lparr>results_B = [], answered_count = 0, missing_B = []\<rparr> = Inr t"
        and rb: "rb = \<lparr>site_url = site, crawled_pages = length pages, indexed_chunks = length pages,
             queries_run = length ?qs,
             overall_scores =
               \<lparr>answerability_rate = round2 (of_nat (answered_count t) / of_nat (max 1 (length ?qs))),
                citation_coverage = round2 (of_nat (answered_count t) / of_nat (max 1 (length ?qs))),
                hallucination_rate = 0,
                overall_completeness = round2 (of_nat (answered_count t) / of_nat (max 1 (length ?qs)))\<rparr>,
             query_results = results_B t, missing_topics = missing_B t\<rparr>"
        by blast
      from process_results_rows[OF pr] obtain rs where
        rs: "results_B t = rs" "missing_B t = map query (filter (\<lambda>r. status r = NotFound) rs)"
          "answered_count t = length (filter (\<lambda>r. status r = Answered) rs)"
        by auto
      let ?rate = "round2 (of_nat (answered_count t) / of_nat (max 1 (length ?qs)))"
      have nonneg: "0 \<le> ?rate" by (rule round2_nonneg) simp
      have le: "length rs \<le> length ?qs \<longrightarrow> ?rate \<le> 1"
      proof
        assume l: "length rs \<le> length ?qs"
        have "answered_count t \<le> length rs" unfolding rs(3) by (rule length_filter_le)
        with l have "answered_count t \<le> max 1 (length ?qs)" by simp
        then have "(of_nat (answered_count t) :: rat) / of_nat (max 1 (length ?qs)) \<le> 1"
          using ratio_unit[of "answered_count t" "max 1 (length ?qs)"] by simp
        then show "?rate \<le> 1" by (rule round2_le_one)
      qed
      show ?thesis unfolding rb using rs(1,2) nonneg le by simp
    qed
    from B show "queries_run rb = length ?qs" by simp
    from B show "missing_topics rb = map query (filter (\<lambda>x. status x = NotFound) (query_results rb))" by simp
    from B show "hallucination_rate (overall_scores rb) = 0" by simp
    from B show "0 \<le> answerability_rate (overall_scores rb)" by simp
    from B show "0 \<le> citation_coverage (overall_scores rb)" by simp
    from B show "0 \<le> overall_completeness (overall_scores rb)" by simp
    {
      assume "length (query_results rb) \<le> queries_run rb"
      with B show "answerability_rate (overall_scores rb) \<le> 1" by simp
    }
    {
      assume "length (query_results rb) \<le> queries_run rb"
      with B show "citation_coverage (overall_scores rb) \<le> 1" by simp
    }
    {
      assume "length (query_results rb) \<le> queries_run rb"
      with B show "overall_completeness (overall_scores rb) \<le> 1" by simp
    }
    {
      assume c: "crawl_site_B e site 10 50 = Inr []"
      from run_B_empty[OF c, of queries model calls] run have "rb = empty_report site ?qs" by simp
      then show "map query (query_results rb) = map JStr ?qs"
        by (simp add: empty_report_def comp_def)
    }
    show "\<forall>pages domain.
         crawl_site_B e site 10 50 = Inr pages \<and> pages \<noteq> [] \<and> netloc e site = Some domain \<longrightarrow>
         (reply_B e calls (request_B model (prompt_B domain ?qs pages)) = None \<longrightarrow>
            map query (query_results rb) = map JStr ?qs) \<and>
         (\<forall>v. reply_B e calls (request_B model (prompt_B domain ?qs pages)) = Some v \<longrightarrow>
            (\<exists>items. json_iter v = Inr items \<and> length (query_results rb) = length items))"
    proof (intro allI impI)
      fix pages domain
      assume "crawl_site_B e site 10 50 = Inr pages \<and> pages \<noteq> [] \<and> netloc e site = Some domain"
      then have p: "crawl_site_B e site 10 50 = Inr pages" and pne: "pages \<noteq> []"
        and d: "netloc e site = Some domain" by simp_all
      from run_B_rows[OF run p pne d]
      show "(reply_B e calls (request_B model (prompt_B domain ?qs pages)) = None \<longrightarrow>
            map query (query_results rb) = map JStr ?qs) \<and>
         (\<forall>v. reply_B e calls (request_B model (prompt_B domain ?qs pages)) = Some v \<longrightarrow>
            (\<exists>items. json_iter v = Inr items \<and> length (query_results rb) = length items))" .
    qed
  }
qed

theorem report_invariants_witness:
  "fst (run_answerability_benchmark_A shop_env ''http://shop.example''
          (Some [''What services do you offer?'', ''Where are you located?'']) ''gpt-4o-mini'' []) =
     Inr \<lparr>site_url = ''http://shop.example'', crawled_pages = 1, indexed_chunks = 1,
          queries_run = 2,
          overall_scores = \<lparr>answerability_rate = 1 / 2, citation_coverage = 1 / 2,
                             hallucination_rate = 0, overall_completeness = 1 / 5\<rparr>,
          query_results =
            [\<lparr>query = ''What services do you offer?'',
              answer = ''We offer consulting and design services [1].'', status = Answered,
              citations = [\<lparr>cite_url = ''http://shop.example'', cite_section = ''page''\<rparr>],
              metrics = \<lparr>answerable = True, citation_ok = True, hallucination = False,
                         completeness = 2 / 5\<rparr>\<rparr>,
             \<lparr>query = ''Where are you located?'', answer = ''NOT FOUND'', status = NotFound,
              citations = [],
              metrics = \<lparr>answerable = False, citation_ok = False, hallucination = False,
                         completeness = 0\<rparr>\<rparr>],
          missing_topics = [''Where are you located?'']\<rparr> \<and>
   queries_list_of (Some [''What services do you offer?'', ''Where are you located?'']) =
     [''What services do you offer?'', ''Where are you located?''] \<and>
   fst (run_answerability_benchmark_B shop_env ''http://shop.example''
          (Some [''What services do you offer?'']) ''gpt-4o-mini'' []) =
     Inr \<lparr>site_url = ''http://shop.example'', crawled_pages = 1, indexed_chunks = 1,
          queries_run = 1,
          overall_scores = \<lparr>answerability_rate = 1, citation_coverage = 1,
                             hallucination_rate = 0, overall_completeness = 1\<rparr>,
          query_results =
            [\<lparr>query = JStr ''What services do you offer?'', answer = JStr ''Consulting and design.'',
              status = Answered,
              citations = [\<lparr>cite_url = ''http://shop.example'', cite_section = ''page''\<rparr>],
              metrics = \<lparr>answerable = JBool True, citation_ok = JBool True, hallucination = False,
                         completeness = 1\<rparr>\<rparr>],
          missing_topics = []\<rparr> \<and>
   crawl_site_B shop_env ''http://shop.example'' 10 50 =
     Inr [\<lparr>url = ''http://shop.example'', title = ''Shop'', page_text = shop_body\<rparr>] \<and>
   netloc shop_env ''http://shop.example'' = Some ''shop.example'' \<and>
   reply_B shop_env []
     (request_B ''gpt-4o-mini''
        (prompt_B ''shop.example'' (queries_list_of (Some [''What services do you offer?'']))
           [\<lparr>url = ''http://shop.example'', title = ''Shop'', page_text = shop_body\<rparr>])) =
     Some (JArr [JObj [(''query'', JStr ''What services do you offer?''),
                       (''answer'', JStr ''Consulting and design.''),
                       (''found'', JBool True)]]) \<and>
   (\<exists>items. json_iter (JArr [JObj [(''query'', JStr ''What services do you offer?''),
                                     (''answer'', JStr ''Consulting and design.''),
                                     (''found'', JBool True)]]) = Inr items \<and>
            length items = 1)"
proof -
  let ?A = "run_answerability_benchmark_A shop_env ''http://shop.example''
          (Some [''What services do you offer?'', ''Where are you located?'']) ''gpt-4o-mini'' []"
  let ?B = "run_answerability_benchmark_B shop_env ''http://shop.example''
          (Some [''What services do you offer?'']) ''gpt-4o-mini'' []"
  let ?ra = "\<lparr>site_url = ''http://shop.example'', crawled_pages = 1, indexed_chunks = 1,
          queries_run = 2,
          overall_scores = \<lparr>answerability_rate = 1 / 2, citation_coverage = 1 / 2,
                             hallucination_rate = 0, overall_completeness = 1 / 5\<rparr>,
          query_results =
            [\<lparr>query = ''What services do you offer?'',
              answer = ''We offer consulting and design services [1].'', status = Answered,
              citations = [\<lparr>cite_url = ''http://shop.example'', cite_section = ''page''\<rparr>],
              metrics = \<lparr>answerable = True, citation_ok = True, hallucination = False,
                         completeness = 2 / 5\<rparr>\<rparr>,
             \<lparr>query = ''Where are you located?'', answer = ''NOT FOUND'', status = NotFound,
              citations = [],
              metrics = \<lparr>answerable = False, citation_ok = False, hallucination = False,
                         completeness = 0\<rparr>\<rparr>],
          missing_topics = [''Where are you located?'']\<rparr> :: (string, bool) report"
  let ?rb = "\<lparr>site_url = ''http://shop.example'', crawled_pages = 1, indexed_chunks = 1,
          queries_run = 1,
          overall_scores = \<lparr>answerability_rate = 1, citation_coverage = 1,
                             hallucination_rate = 0, overall_completeness = 1\<rparr>,
          query_results =
            [\<lparr>query = JStr ''What services do you offer?'', answer = JStr ''Consulting and design.'',
              status = Answered,
              citations = [\<lparr>cite_url = ''http://shop.example'', cite_section = ''page''\<rparr>],
              metrics = \<lparr>answerable = JBool True, citation_ok = JBool True, hallucination = False,
                         completeness = 1\<rparr>\<rparr>],
          missing_topics = []\<rparr> :: (json, json) report"
  have a: "fst ?A = Inr ?ra" by code_simp
  have b: "fst ?B = Inr ?rb" by code_simp
  from a have a': "?A = (Inr ?ra, snd ?A)" by (metis prod.collapse)
  from b have b': "?B = (Inr ?rb, snd ?B)" by (metis prod.collapse)
  from report_invariants[of shop_env "''http://shop.example''"
      "Some [''What services do you offer?'', ''Where are you located?'']" "''gpt-4o-mini''" "[]"
      ?ra "snd ?A" ?rb "snd ?A"] a'
  have "map query (query_results ?ra) =
      queries_list_of (Some [''What services do you offer?'', ''Where are you located?''])"
    by blast
  then have q: "queries_list_of (Some [''What services do you offer?'', ''Where are you located?'']) =
     [''What services do you offer?'', ''Where are you located?'']" by simp
  let ?page = "\<lparr>url = ''http://shop.example'', title = ''Shop'', page_text = shop_body\<rparr>"
  let ?v = "JArr [JObj [(''query'', JStr ''What services do you offer?''),
                        (''answer'', JStr ''Consulting and design.''),
                        (''found'', JBool True)]]"
  have c: "crawl_site_B shop_env ''http://shop.example'' 10 50 = Inr [?page]"
    by code_simp
  have n: "netloc shop_env ''http://shop.example'' = Some ''shop.example''"
    by code_simp
  have rp: "reply_B shop_env []
     (request_B ''gpt-4o-mini''
        (prompt_B ''shop.example'' (queries_list_of (Some [''What services do you offer?''])) [?page])) =
     Some ?v"
    by (simp add: reply_B_def shop_env_def)
  from report_invariants[of shop_env "''http://shop.example''"
      "Some [''What services do you offer?'']" "''gpt-4o-mini''" "[]"
      ?ra "snd ?B" ?rb "snd ?B"] b' c n rp
  have "\<exists>items. json_iter ?v = Inr items \<and> length (query_results ?rb) = length items"
    by blast
  then have it: "\<exists>items. json_iter ?v = Inr items \<and> length items = 1" by auto
  from a b q c n rp it show ?thesis by blast
qed

theorem report_invariants_counterexample:
  "fst (run_answerability_benchmark_B chatty_env ''http://shop.example''
          (Some [''What services do you offer?'']) ''gpt-4o-mini'' []) =
     Inr \<lparr>site_url = ''http://shop.example'', crawled_pages = 1, indexed_chunks = 1,
          queries_run = 1,
          overall_scores = \<lparr>answerability_rate = 2, citation_coverage = 2,
                             hallucination_rate = 0, overall_completeness = 2\<rparr>,
          query_results =
            [\<lparr>query = JStr ''What services do you offer?'', answer = JStr ''Consulting.'',
              status = Answered,
              citations = [\<lparr>cite_url = ''http://shop.example'', cite_section = ''page''\<rparr>],
              metrics = \<lparr>answerable = JBool True, citation_ok = JBool True, hallucination = False,
                         completeness = 1\<rparr>\<rparr>,
             \<lparr>query = JStr ''What else do you offer?'', answer = JStr ''Design.'',
              status = Answered,
              citations = [\<lparr>cite_url = ''http://shop.example'', cite_section = ''page''\<rparr>],
              metrics = \<lparr>answerable = JBool True, citation_ok = JBool True, hallucination = False,
                         completeness = 1\<rparr>\<rparr>,
             \<lparr>query = JStr ''Do you ship abroad?'', answer = JStr ''NOT FOUND'',
              status = NotFound, citations = [],
              metrics = \<lparr>answerable = JBool False, citation_ok = JBool False,
                         hallucination = False, completeness = 0\<rparr>\<rparr>],
          missing_topics = [JStr ''Do you ship abroad?'']\<rparr>"
  by code_simp

section \<open>Properties of the crawler\<close>

lemma enqueue_links_hosts:
  "enqueue_links e start seen queue links = Inr queue' \<Longrightarrow>
   \<forall>u\<in>set queue. u \<in> Q \<or> netloc e u = netloc e start \<Longrightarrow>
   \<forall>u\<in>set queue'. u \<in> Q \<or> netloc e u = netloc e start"
proof (induction links arbitrary: queue)
  case Nil
  then show ?case by simp
next
  case (Cons link links)
  from Cons.prems(1) obtain same where
    sh: "is_same_host e start link = Inr same"
    and rest: "enqueue_links e start seen (if same \<and> link \<notin> seen then queue @ [link] else queue) links
                 = Inr queue'"
    by (cases "is_same_host e start link") simp_all
  have "same \<Longrightarrow> netloc e link = netloc e start"
    using sh by (auto simp: is_same_host_def split: option.splits)
  with Cons.prems(2)
  have "\<forall>u\<in>set (if same \<and> link \<notin> seen then queue @ [link] else queue).
          u \<in> Q \<or> netloc e u = netloc e start"
    by simp
  from Cons.IH[OF rest this] show ?case .
qed

lemma make_page_url: "url (make_page e u html) = u"
  by (simp add: make_page_def)

lemma crawl_loop_hosts:
  "crawl_loop e start mp ml seen queue pages = Inr (seen', pages') \<Longrightarrow>
   \<forall>u\<in>set queue. u \<in> Q \<or> netloc e u = netloc e start \<Longrightarrow>
   \<forall>u\<in>seen. u \<in> Q \<or> netloc e u = netloc e start \<Longrightarrow>
   \<forall>p\<in>set pages. url p \<in> seen \<Longrightarrow>
   (\<forall>u\<in>seen'. u \<in> Q \<or> netloc e u = netloc e start) \<and> (\<forall>p\<in>set pages'. url p \<in> seen')"
proof (induction e start mp ml seen queue pages rule: crawl_loop.induct)
  case (1 e start mp ml seen pages)
  then show ?case by simp
next
  case (2 e start mp ml seen u queue pages)
  note run = "2.prems"(1) and q = "2.prems"(2) and s = "2.prems"(3) and pg = "2.prems"(4)
  from q have qu: "u \<in> Q \<or> netloc e u = netloc e start"
    and qq: "\<forall>v\<in>set queue. v \<in> Q \<or> netloc e v = netloc e start"
    by simp_all
  show ?case
  proof (cases "int (length pages) < mp")
    case False
    with run s pg show ?thesis by simp
  next
    case room: True
    show ?thesis
    proof (cases "u \<in> seen")
      case True
      with run room have "crawl_loop e start mp ml seen queue pages = Inr (seen', pages')" by simp
      from "2.IH"(1)[OF _ True this qq s pg] room show ?thesis by simp
    next
      case new: False
      have s1: "\<forall>v\<in>insert u seen. v \<in> Q \<or> netloc e v = netloc e start" using s qu by simp
      have pg1: "\<forall>p\<in>set pages. url p \<in> insert u seen" using pg by simp
      show ?thesis
      proof (cases "http_get e u")
        case None
        with run room new
        have "crawl_loop e start mp ml (insert u seen) queue pages = Inr (seen', pages')" by simp
        from "2.IH"(2)[OF _ new None this qq s1 pg1] room show ?thesis by simp
      next
        case (Some resp)
        show ?thesis
        proof (cases "400 \<le> status_code resp")
          case True
          with run room new Some
          have "crawl_loop e start mp ml (insert u seen) queue pages = Inr (seen', pages')" by simp
          from "2.IH"(3)[OF _ new Some True this qq s1 pg1] room show ?thesis by simp
        next
          case ok: False
          from run room new Some ok obtain queue' where
            enq: "enqueue_links e start (insert u seen) queue (extract_links e u (body resp) ml) = Inr queue'"
            and rest: "crawl_loop e start mp ml (insert u seen) queue' (pages @ [make_page e u (body resp)])
                    = Inr (seen', pages')"
            by (cases "enqueue_links e start (insert u seen) queue (extract_links e u (body resp) ml)")
              simp_all
          from enqueue_links_hosts[OF enq qq]
          have q': "\<forall>v\<in>set queue'. v \<in> Q \<or> netloc e v = netloc e start" .
          have pg2: "\<forall>p\<in>set (pages @ [make_page e u (body resp)]). url p \<in> insert u seen"
            using pg by (simp add: make_page_url)
          from "2.IH"(4)[OF _ new Some ok enq rest q' s1 pg2] room show ?thesis by simp
        qed
      qed
    qed
  qed
qed

lemma crawl_loop_start:
  assumes run: "crawl_loop e start mp ml {} queue [] = Inr (s, ps)"
  shows "(\<forall>u\<in>s. u \<in> set queue \<or> netloc e u = netloc e start) \<and> (\<forall>p\<in>set ps. url p \<in> s)"
  by (rule crawl_loop_hosts[OF run]) simp_all

lemma slash_plain: "\<not> c0_or_space CHR ''/''" "CHR ''/'' \<noteq> CHR '':''" "netloc_end CHR ''/''"
  by (simp_all add: c0_or_space_def netloc_end_def)

lemma path_tail_slashes: "path_tail (replicate k CHR ''/'')"
  by (cases k) (simp_all add: path_tail_def slash_plain)

lemma path_tail_priority: "p \<in> set priority_paths \<Longrightarrow> path_tail p"
  by (auto simp: priority_paths_def path_tail_def c0_or_space_def)

lemma rstrip_char_split: "\<exists>k. s = rstrip_char c s @ replicate k c"
proof -
  let ?r = "rev s"
  have "\<forall>x\<in>set (takeWhile (\<lambda>d. d = c) ?r). x = c"
    by (auto dest: set_takeWhileD)
  then have tw: "takeWhile (\<lambda>d. d = c) ?r = replicate (length (takeWhile (\<lambda>d. d = c) ?r)) c"
    by (simp add: replicate_length_same)
  have "?r = takeWhile (\<lambda>d. d = c) ?r @ dropWhile (\<lambda>d. d = c) ?r" by simp
  then have "rev ?r = rev (dropWhile (\<lambda>d. d = c) ?r) @ rev (takeWhile (\<lambda>d. d = c) ?r)"
    by (metis rev_append)
  then have "s = rstrip_char c s @ rev (replicate (length (takeWhile (\<lambda>d. d = c) ?r)) c)"
    using tw by (simp add: rstrip_char_def)
  then show ?thesis by (metis rev_replicate)
qed

lemma dropWhile_append_stop:
  "t = [] \<or> \<not> P (hd t) \<Longrightarrow> dropWhile P (b @ t) = dropWhile P b @ t"
proof (induction b)
  case Nil
  then show ?case by (cases t) auto
next
  case (Cons x b)
  then show ?case by simp
qed

lemma takeWhile_append_stop:
  "t = [] \<or> \<not> P (hd t) \<Longrightarrow> takeWhile P (b @ t) = takeWhile P b"
proof (induction b)
  case Nil
  then show ?case by (cases t) auto
next
  case (Cons x b)
  then show ?case by simp
qed

lemma unsafe_is_c0: "unsafe_url_byte c \<Longrightarrow> c0_or_space c"
  by (auto simp: unsafe_url_byte_def c0_or_space_def)

lemma url_sanitize_tail: "path_tail t \<Longrightarrow> url_sanitize (b @ t) = url_sanitize b @ t"
proof -
  assume t: "path_tail t"
  then have stop: "t = [] \<or> \<not> c0_or_space (hd t)"
    by (cases t) (auto simp: path_tail_def)
  from t have "\<forall>c\<in>set t. \<not> unsafe_url_byte c"
    using unsafe_is_c0 by (auto simp: path_tail_def)
  then have keep: "filter (\<lambda>c. \<not> unsafe_url_byte c) t = t" by simp
  have "dropWhile c0_or_space (b @ t) = dropWhile c0_or_space b @ t"
    using stop by (rule dropWhile_append_stop)
  then show ?thesis
    unfolding url_sanitize_def by (simp add: keep)
qed

lemma takeWhile_colon_tail:
  assumes "\<forall>c\<in>set t. c \<noteq> CHR '':''"
  shows "takeWhile (\<lambda>c. c \<noteq> CHR '':'') (B @ t) =
     (if CHR '':'' \<in> set B then takeWhile (\<lambda>c. c \<noteq> CHR '':'') B else B @ t)"
proof (cases "CHR '':'' \<in> set B")
  case True
  then show ?thesis by (simp add: takeWhile_append1)
next
  case False
  with assms have "\<forall>c\<in>set (B @ t). c \<noteq> CHR '':''" by auto
  then have "takeWhile (\<lambda>c. c \<noteq> CHR '':'') (B @ t) = B @ t" by (simp only: takeWhile_eq_all_conv)
  with False show ?thesis by simp
qed

lemma drop_scheme_tail:
  assumes t: "path_tail t"
  shows "drop_scheme (B @ t) = drop_scheme B @ t"
proof -
  from t have nc: "\<forall>c\<in>set t. c \<noteq> CHR '':''" by (simp add: path_tail_def)
  show ?thesis
  proof (cases "CHR '':'' \<in> set B")
    case True
    let ?pre = "takeWhile (\<lambda>c. c \<noteq> CHR '':'') B"
    have "?pre \<noteq> B"
    proof
      assume "?pre = B"
      then have "\<forall>c\<in>set B. c \<noteq> CHR '':''" by (simp only: takeWhile_eq_all_conv)
      with True show False by blast
    qed
    moreover have "length ?pre \<le> length B" by (rule length_takeWhile_le)
    moreover have "length ?pre = length B \<Longrightarrow> ?pre = B"
      by (metis append_eq_conv_conj takeWhile_dropWhile_id append_Nil2 length_0_conv length_drop diff_self_eq_0)
    ultimately have lt: "length ?pre < length B"
      using le_neq_implies_less by blast
    from True have ne: "B \<noteq> []" by auto
    have pre: "takeWhile (\<lambda>c. c \<noteq> CHR '':'') (B @ t) = ?pre"
      using takeWhile_colon_tail[OF nc, of B] True by simp
    from lt have d: "drop (Suc (length ?pre)) (B @ t) = drop (Suc (length ?pre)) B @ t"
      by simp
    from ne have h: "hd (B @ t) = hd B" by simp
    from lt have l: "length ?pre < length (B @ t)" by simp
    show ?thesis
      unfolding drop_scheme_def Let_def pre h d using lt l by simp
  next
    case False
    have pre: "takeWhile (\<lambda>c. c \<noteq> CHR '':'') (B @ t) = B @ t"
      using takeWhile_colon_tail[OF nc, of B] False by simp
    from False have "\<forall>c\<in>set B. c \<noteq> CHR '':''" by blast
    then have preB: "takeWhile (\<lambda>c. c \<noteq> CHR '':'') B = B"
      by (simp only: takeWhile_eq_all_conv)
    show ?thesis
      unfolding drop_scheme_def Let_def pre preB by simp
  qed
qed

lemma checked_netloc_Some: "checked_netloc chk n = Some h \<Longrightarrow> n = h"
  by (simp add: checked_netloc_def split: if_splits)

lemma netloc_of_rest:
  "url_netloc chk u =
     (if take 2 (drop_scheme (url_sanitize u)) = ''//''
      then checked_netloc chk (takeWhile (\<lambda>c. \<not> netloc_end c) (drop 2 (drop_scheme (url_sanitize u))))
      else Some [])"
  by (simp add: url_netloc_def Let_def)

lemma url_netloc_tail:
  assumes h: "url_netloc chk (b @ replicate k CHR ''/'') = Some h" and ne: "h \<noteq> []"
    and t: "path_tail t"
  shows "url_netloc chk (b @ t) = Some h"
proof -
  let ?R = "drop_scheme (url_sanitize b)"
  let ?s = "replicate k CHR ''/''"
  let ?P = "\<lambda>c. \<not> netloc_end c"
  have rs: "drop_scheme (url_sanitize (b @ ?s)) = ?R @ ?s"
    by (simp only: url_sanitize_tail[OF path_tail_slashes] drop_scheme_tail[OF path_tail_slashes])
  have rt: "drop_scheme (url_sanitize (b @ t)) = ?R @ t"
    by (simp only: url_sanitize_tail[OF t] drop_scheme_tail[OF t])
  from h ne have two: "take 2 (?R @ ?s) = ''//''"
    unfolding netloc_of_rest rs by (simp split: if_splits)
  with h have chk: "checked_netloc chk (takeWhile ?P (drop 2 (?R @ ?s))) = Some h"
    unfolding netloc_of_rest rs by simp
  from checked_netloc_Some[OF chk] have hh: "h = takeWhile ?P (drop 2 (?R @ ?s))"
    by (rule sym)
  have long: "2 < length ?R"
  proof (rule ccontr)
    assume "\<not> 2 < length ?R"
    then have "drop 2 (?R @ ?s) = replicate (k - (2 - length ?R)) CHR ''/''"
      by simp
    then have "takeWhile ?P (drop 2 (?R @ ?s)) = []"
      by (cases "k - (2 - length ?R)") (simp_all add: slash_plain)
    with hh ne show False by simp
  qed
  then have d_s: "drop 2 (?R @ ?s) = drop 2 ?R @ ?s" and d_t: "drop 2 (?R @ t) = drop 2 ?R @ t"
    and t_s: "take 2 (?R @ ?s) = take 2 ?R" and t_t: "take 2 (?R @ t) = take 2 ?R"
    by simp_all
  have stop_s: "?s = [] \<or> \<not> ?P (hd ?s)"
    by (cases k) (simp_all add: slash_plain)
  from t have "t = [] \<or> hd t = CHR ''/''" unfolding path_tail_def by (rule conjunct1)
  then have stop_t: "t = [] \<or> \<not> ?P (hd t)"
  proof
    assume "t = []"
    then show ?thesis by (rule disjI1)
  next
    assume "hd t = CHR ''/''"
    then have "netloc_end (hd t)" by (simp only: slash_plain(3))
    then show ?thesis by simp
  qed
  have "takeWhile ?P (drop 2 ?R @ ?s) = takeWhile ?P (drop 2 ?R)"
    using stop_s by (rule takeWhile_append_stop)
  moreover have "takeWhile ?P (drop 2 ?R @ t) = takeWhile ?P (drop 2 ?R)"
    using stop_t by (rule takeWhile_append_stop)
  ultimately have same: "takeWhile ?P (drop 2 (?R @ t)) = takeWhile ?P (drop 2 (?R @ ?s))"
    unfolding d_s d_t by simp
  from two have two_t: "take 2 (?R @ t) = ''//''"
    unfolding t_s t_t .
  show ?thesis
    unfolding netloc_of_rest rt same using two_t chk by simp
qed

lemma priority_url_netloc:
  assumes "url_netloc chk start = Some h" and "h \<noteq> []" and "p \<in> set priority_paths"
  shows "url_netloc chk (rstrip_char CHR ''/'' start @ p) = Some h"
proof -
  from rstrip_char_split[of start "CHR ''/''"] obtain k where
    k: "start = rstrip_char CHR ''/'' start @ replicate k CHR ''/''" by blast
  from assms(1) k have "url_netloc chk (rstrip_char CHR ''/'' start @ replicate k CHR ''/'') = Some h"
    by simp
  from url_netloc_tail[OF this assms(2) path_tail_priority[OF assms(3)]] show ?thesis .
qed

lemma priority_queue_hosts:
  assumes "url_netloc chk start = Some h" and "h \<noteq> []"
  shows "\<forall>u\<in>set (priority_queue start). url_netloc chk u = url_netloc chk start"
  using assms priority_url_netloc[OF assms]
  by (auto simp: priority_queue_def Let_def)

lemma returned_pages_Inr:
  "returned_pages r = Inr pages \<Longrightarrow> \<exists>seen. r = Inr (seen, pages)"
  by (cases r) (auto simp: returned_pages_def)

text \<open>
  Claim C9.  For every seed URL and every behaviour of the fetcher, every URL the crawler
  of \<open>ai_tool_anayze/backend/benchmark.py\<close> attempts to fetch, and so the URL of every
  page it returns, has the host component of the seed URL: the queue starts with the seed,
  and a link enters it only after \<open>_is_same_host\<close> has compared its host with the seed's.
  The crawler of \<open>backend/benchmark.py\<close> puts the priority URLs in front of the seed, the
  seed without its trailing slashes followed by a fixed path; every URL it attempts to fetch
  is one of these, the seed, or a link that has passed the same comparison.  The seed is an
  absolute HTTP or HTTPS URL, so it has a host; then the URL library finds that host in
  every priority URL as well, whatever its check of bracketed hosts accepts, and every URL
  that crawler attempts to fetch and every page it returns has the seed's host.
\<close>

theorem crawl_same_host:
  "(crawl_site_A e start mp ml = Inr pages \<longrightarrow>
      (\<forall>p\<in>set pages. netloc e (url p) = netloc e start)) \<and>
   (crawl_loop e start mp ml {} [start] [] = Inr (seen, pages') \<longrightarrow>
      (\<forall>u\<in>seen. netloc e u = netloc e start)) \<and>
   (crawl_loop e start mp ml {} (priority_queue start) [] = Inr (seenB, pagesB') \<longrightarrow>
      (\<forall>u\<in>seenB. u \<in> set (priority_queue start) \<or> netloc e u = netloc e start) \<and>
      (\<forall>p\<in>set pagesB'. url p \<in> seenB)) \<and>
   (netloc e = url_netloc chk \<and> url_netloc chk start = Some h \<and> h \<noteq> [] \<longrightarrow>
      (crawl_site_B e start mp ml = Inr pagesB \<longrightarrow>
         (\<forall>p\<in>set pagesB. url_netloc chk (url p) = Some h)) \<and>
      (crawl_loop e start mp ml {} (priority_queue start) [] = Inr (seenB, pagesB') \<longrightarrow>
         (\<forall>u\<in>seenB. url_netloc chk u = Some h)))"
proof -
  have a2: "crawl_loop e start mp ml {} [start] [] = Inr (s, ps) \<Longrightarrow>
      (\<forall>u\<in>s. netloc e u = netloc e start) \<and> (\<forall>p\<in>set ps. netloc e (url p) = netloc e start)"
    for s ps
  proof -
    assume "crawl_loop e start mp ml {} [start] [] = Inr (s, ps)"
    from crawl_loop_start[OF this]
    have "(\<forall>u\<in>s. u \<in> set [start] \<or> netloc e u = netloc e start) \<and> (\<forall>p\<in>set ps. url p \<in> s)" .
    then show ?thesis by auto
  qed
  have a1: "crawl_site_A e start mp ml = Inr pages \<longrightarrow>
      (\<forall>p\<in>set pages. netloc e (url p) = netloc e start)"
  proof
    assume "crawl_site_A e start mp ml = Inr pages"
    then obtain s where "crawl_loop e start mp ml {} [start] [] = Inr (s, pages)"
      unfolding crawl_site_A_def using returned_pages_Inr by blast
    from a2[OF this] show "\<forall>p\<in>set pages. netloc e (url p) = netloc e start" by simp
  qed
  have a3: "crawl_loop e start mp ml {} [start] [] = Inr (seen, pages') \<longrightarrow>
      (\<forall>u\<in>seen. netloc e u = netloc e start)"
    using a2 by blast
  have b0: "crawl_loop e start mp ml {} (priority_queue start) [] = Inr (seenB, pagesB') \<longrightarrow>
      (\<forall>u\<in>seenB. u \<in> set (priority_queue start) \<or> netloc e u = netloc e start) \<and>
      (\<forall>p\<in>set pagesB'. url p \<in> seenB)"
    using crawl_loop_start by blast
  have b: "netloc e = url_netloc chk \<and> url_netloc chk start = Some h \<and> h \<noteq> [] \<longrightarrow>
      (crawl_site_B e start mp ml = Inr pagesB \<longrightarrow>
         (\<forall>p\<in>set pagesB. url_netloc chk (url p) = Some h)) \<and>
      (crawl_loop e start mp ml {} (priority_queue start) [] = Inr (seenB, pagesB') \<longrightarrow>
         (\<forall>u\<in>seenB. url_netloc chk u = Some h))"
  proof
    assume hyp: "netloc e = url_netloc chk \<and> url_netloc chk start = Some h \<and> h \<noteq> []"
    then have n: "netloc e = url_netloc chk" and h: "url_netloc chk start = Some h" and ne: "h \<noteq> []"
      by simp_all
    from priority_queue_hosts[OF h ne] h
    have q: "\<forall>u\<in>set (priority_queue start). url_netloc chk u = Some h" by simp
    have loop: "crawl_loop e start mp ml {} (priority_queue start) [] = Inr (s, ps) \<Longrightarrow>
        (\<forall>u\<in>s. url_netloc chk u = Some h) \<and> (\<forall>p\<in>set ps. url_netloc chk (url p) = Some h)" for s ps
    proof -
      assume "crawl_loop e start mp ml {} (priority_queue start) [] = Inr (s, ps)"
      from crawl_loop_start[OF this] n h
      have "(\<forall>u\<in>s. u \<in> set (priority_queue start) \<or> url_netloc chk u = Some h) \<and>
            (\<forall>p\<in>set ps. url p \<in> s)" by simp
      with q show ?thesis by blast
    qed
    have b1: "crawl_site_B e start mp ml = Inr pagesB \<longrightarrow>
         (\<forall>p\<in>set pagesB. url_netloc chk (url p) = Some h)"
    proof
      assume "crawl_site_B e start mp ml = Inr pagesB"
      then obtain s where "crawl_loop e start mp ml {} (priority_queue start) [] = Inr (s, pagesB)"
        unfolding crawl_site_B_def using returned_pages_Inr by blast
      from loop[OF this] show "\<forall>p\<in>set pagesB. url_netloc chk (url p) = Some h" by simp
    qed
    have b2: "crawl_loop e start mp ml {} (priority_queue start) [] = Inr (seenB, pagesB') \<longrightarrow>
         (\<forall>u\<in>seenB. url_netloc chk u = Some h)"
      using loop by blast
    from b1 b2 show "(crawl_site_B e start mp ml = Inr pagesB \<longrightarrow>
         (\<forall>p\<in>set pagesB. url_netloc chk (url p) = Some h)) \<and>
      (crawl_loop e start mp ml {} (priority_queue start) [] = Inr (seenB, pagesB') \<longrightarrow>
         (\<forall>u\<in>seenB. url_netloc chk u = Some h))" ..
  qed
  from a1 a3 b0 b show ?thesis by (intro conjI)
qed

theorem crawl_same_host_witness:
  "crawl_site_A shop_env ''http://shop.example'' 15 50 =
     Inr [\<lparr>url = ''http://shop.example'', title = ''Shop'', page_text = shop_body\<rparr>] \<and>
   crawl_site_B shop_env ''http://shop.example/'' 10 50 =
     Inr [\<lparr>url = ''http://shop.example'', title = ''Shop'', page_text = shop_body\<rparr>] \<and>
   netloc shop_env = url_netloc plain_hosts \<and>
   url_netloc plain_hosts ''http://shop.example/'' = Some ''shop.example'' \<and>
   url_netloc plain_hosts ''http://shop.example'' = Some ''shop.example'' \<and>
   url_netloc plain_hosts ''http://elsewhere.example/'' = Some ''elsewhere.example''"
proof -
  have a: "crawl_site_A shop_env ''http://shop.example'' 15 50 =
     Inr [\<lparr>url = ''http://shop.example'', title = ''Shop'', page_text = shop_body\<rparr>]"
    by code_simp
  have b: "crawl_site_B shop_env ''http://shop.example/'' 10 50 =
     Inr [\<lparr>url = ''http://shop.example'', title = ''Shop'', page_text = shop_body\<rparr>]"
    by code_simp
  have n: "netloc shop_env = url_netloc plain_hosts" by (simp add: shop_env_def)
  have h: "url_netloc plain_hosts ''http://shop.example/'' = Some ''shop.example''" by code_simp
  have o: "url_netloc plain_hosts ''http://elsewhere.example/'' = Some ''elsewhere.example''"
    by code_simp
  have ne: "''shop.example'' \<noteq> []" by simp
  from crawl_same_host[of shop_env "''http://shop.example/''" 10 50
      "[\<lparr>url = ''http://shop.example'', title = ''Shop'', page_text = shop_body\<rparr>]" "{}" "[]"
      "{}" "[]" plain_hosts "''shop.example''"
      "[\<lparr>url = ''http://shop.example'', title = ''Shop'', page_text = shop_body\<rparr>]"]
    b n h ne
  have "url_netloc plain_hosts ''http://shop.example'' = Some ''shop.example''" by simp
  with a b n h o show ?thesis by simp
qed

text \<open>
  The host rule on some URLs, as the library answers on them.  The last three have a
  bracketed host: the text handed to the check is what stands between the brackets.
\<close>

lemma url_netloc_examples:
  "url_netloc chk ''HTTP://Ex.com:80/p?q#f'' = Some ''Ex.com:80''"
  "url_netloc chk ''1http://x/'' = Some []"
  "url_netloc chk ''ht+tp://x/y'' = Some ''x''"
  "url_netloc chk ''//x/y'' = Some ''x''"
  "url_netloc chk ''a:b://c/d'' = Some []"
  "url_netloc chk '' http://a/b'' = Some ''a''"
  "url_netloc chk ''http://[::1/x'' = None"
  "url_netloc chk ''http://[::1]:80/x'' = (if chk ''::1'' then Some ''[::1]:80'' else None)"
  "url_netloc chk ''http://[abc]/'' = (if chk ''abc'' then Some ''[abc]'' else None)"
  "url_netloc chk ''http://a]b[c/'' = (if chk ''c'' then Some ''a]b[c'' else None)"
  by (simp_all add: url_netloc_def url_sanitize_def drop_scheme_def checked_netloc_def
      bracketed_host_def c0_or_space_def unsafe_url_byte_def ascii_alpha_def scheme_char_def
      is_digit_def netloc_end_def)

end
